theory Spec2Isabelle
  imports Main "HOL-Library.AList"
begin

section \<open>JavaScript values used by the provisioning simulator\<close>

text \<open>
  The service module keeps two plain objects, \<^verbatim>\<open>simulatedAccountsStore\<close> and
  \<^verbatim>\<open>simulatedIdentitiesStore\<close>, and two counters. The entries of the stores are
  object references: \<^verbatim>\<open>simulateCreateAccount\<close> stores the same identity object
  under two keys, and every mutation goes through a reference. The model therefore has an
  explicit heap of objects and stores that map keys to references.

  A string-valued expression that may be \<^verbatim>\<open>undefined\<close> is a \<open>string option\<close>.
  \<^verbatim>\<open>Date.now()\<close> is an argument \<open>now\<close> of every operation that reads the clock.
  Logging and the simulated token acquisition touch neither store and are left out.
\<close>

definition truthy :: "string option \<Rightarrow> bool" where
  "truthy v = (case v of None \<Rightarrow> False | Some s \<Rightarrow> s \<noteq> [])"

text \<open>The operator \<^verbatim>\<open>a || b\<close> on possibly undefined strings.\<close>

definition or_else :: "string option \<Rightarrow> string option \<Rightarrow> string option" where
  "or_else a b = (if truthy a then a else b)"

text \<open>A value inside a template literal: \<^verbatim>\<open>`${v}`\<close>.\<close>

definition js_str :: "string option \<Rightarrow> string" where
  "js_str v = (case v of None \<Rightarrow> ''undefined'' | Some s \<Rightarrow> s)"

definition digit_char :: "nat \<Rightarrow> char" where
  "digit_char d = ''0123456789'' ! d"

text \<open>A non-negative integer inside a template literal: its decimal digits.\<close>

fun string_of_nat :: "nat \<Rightarrow> string" where
  "string_of_nat n =
     (if n < 10 then [digit_char n]
      else string_of_nat (n div 10) @ [digit_char (n mod 10)])"

declare string_of_nat.simps [simp del]

text \<open>The template literals that make the ids and keys of the module.\<close>

definition simulatedAccountId :: "nat \<Rightarrow> string" where
  "simulatedAccountId n = ''simulated-accountId-'' @ string_of_nat n"

definition simulatedIdentityId :: "nat \<Rightarrow> string" where
  "simulatedIdentityId n = ''simulated-identityId-'' @ string_of_nat n"

definition accountCreationTaskId :: "nat \<Rightarrow> string" where
  "accountCreationTaskId now = ''account-creation-task-'' @ string_of_nat now"

definition disableAccountTaskId :: "nat \<Rightarrow> string" where
  "disableAccountTaskId now = ''disable-account-task-'' @ string_of_nat now"

definition setLcsTaskId :: "nat \<Rightarrow> string" where
  "setLcsTaskId now = ''set-lcs-task-'' @ string_of_nat now"

text \<open>
  The two stores are plain objects, so a property read \<^verbatim>\<open>store[k]\<close> that finds no own
  property goes on to \<^verbatim>\<open>Object.prototype\<close>. These are its members, each with the
  reference of the object the read gives: eleven functions and, for \<^verbatim>\<open>__proto__\<close>,
  \<^verbatim>\<open>Object.prototype\<close> itself. A string read through the chain is seen at
  \<open>primitiveRef\<close>.
\<close>

definition prototypeMembers :: "(string \<times> nat) list" where
  "prototypeMembers =
     [(''constructor'', 2), (''__defineGetter__'', 3), (''__defineSetter__'', 4),
      (''hasOwnProperty'', 5), (''__lookupGetter__'', 6), (''__lookupSetter__'', 7),
      (''isPrototypeOf'', 8), (''propertyIsEnumerable'', 9), (''toString'', 10),
      (''valueOf'', 11), (''__proto__'', 12), (''toLocaleString'', 13)]"

definition Object_prototype :: "string list" where
  "Object_prototype = map fst prototypeMembers"

definition prototypeRef :: nat where
  "prototypeRef = 12"

definition primitiveRef :: nat where
  "primitiveRef = 14"

text \<open>The keys that are not names of inherited members.\<close>

definition own_key :: "string \<Rightarrow> bool" where
  "own_key k = (k \<notin> set Object_prototype)"

section \<open>Data model\<close>

datatype task_status = QUEUED | PROCESSING | COMPLETED

datatype account_status = enabled | disabled

record account =
  acc_id :: string
  nativeIdentity :: string
  sourceId :: string
  sourceName :: string
  acc_status :: account_status

record access_item =
  ai_id :: string
  ai_type :: string
  ai_name :: string
  ai_description :: string

text \<open>The argument of \<^verbatim>\<open>simulateCreateAccount\<close>: \<^verbatim>\<open>{ sourceId, attributes }\<close>.\<close>

record account_data =
  ad_sourceId :: string
  ad_attributes :: "(string \<times> string) list"

text \<open>
  One record for every object the stores hold. The code never asks what kind of object it
  has in hand; it reads properties, and a property the object does not have reads as
  \<^verbatim>\<open>undefined\<close> (\<open>None\<close>). An identity has \<open>obj_id\<close>, \<open>name\<close>, \<open>email\<close>,
  \<open>attributes\<close>, \<open>lifecycleState\<close>, \<open>sourceAccountId\<close>, \<open>manager\<close>, \<open>accounts\<close> and
  \<open>access\<close>; a task has \<open>status\<close>, \<open>name\<close> and some of \<open>accountId\<close>, \<open>accountData\<close>,
  \<open>identityId\<close>, \<open>obj_type\<close>.
\<close>

record jsobj =
  obj_id :: "string option"
  name :: "string option"
  email :: "string option"
  attributes :: "(string \<times> string) list option"
  lifecycleState :: "string option"
  sourceAccountId :: "string option"
  manager :: "(string \<times> string) option"
  accounts :: "account list option"
  access :: "access_item list option"
  status :: "task_status option"
  accountId :: "string option"
  accountData :: "account_data option"
  identityId :: "string option"
  obj_type :: "string option"

definition empty_obj :: jsobj where
  "empty_obj = \<lparr> obj_id = None, name = None, email = None, attributes = None,
     lifecycleState = None, sourceAccountId = None, manager = None, accounts = None,
     access = None, status = None, accountId = None, accountData = None,
     identityId = None, obj_type = None \<rparr>"

text \<open>
  A store is the list of its own properties in insertion order, which is the order of
  \<^verbatim>\<open>for (key in store)\<close> and \<^verbatim>\<open>Object.values(store)\<close> for keys that are not array
  indices (every key the module writes starts with a letter). Assignment
  \<^verbatim>\<open>store[k] = v\<close> is \<open>AList.update\<close>: an existing key keeps its place.
\<close>

type_synonym store = "(string \<times> nat) list"

record state =
  heap :: "nat \<Rightarrow> jsobj"
  nextRef :: nat
  simulatedAccountsStore :: store
  simulatedIdentitiesStore :: store
  accountCounter :: nat
  identityCounter :: nat

text \<open>Creating an object: a fresh reference.\<close>

definition alloc :: "state \<Rightarrow> jsobj \<Rightarrow> nat \<times> state" where
  "alloc s obj = (nextRef s, s\<lparr> heap := (heap s)(nextRef s := obj), nextRef := Suc (nextRef s) \<rparr>)"

datatype error =
    TypeError string
  | ApiError nat string
  | BadRequestError string
  | NotFoundError string

text \<open>
  The objects behind the inherited members: a function has its \<^verbatim>\<open>name\<close> and none of the
  other properties the module reads, \<^verbatim>\<open>Object.prototype\<close> has none of them. A string has
  none of them either, and an assignment to a property of a string is dropped.
\<close>

definition memberObject :: "string \<Rightarrow> jsobj" where
  "memberObject k =
     (if k = ''__proto__'' then empty_obj
      else empty_obj\<lparr> name := Some (if k = ''constructor'' then ''Object'' else k) \<rparr>)"

definition builtins :: "nat \<Rightarrow> jsobj" where
  "builtins = fold (\<lambda>(k, r) h. h(r := memberObject k)) prototypeMembers (\<lambda>_. empty_obj)"

text \<open>The state of the module once it is loaded: the manager and one user.\<close>

definition initial_state :: state where
  "initial_state =
    (let managerIdentityId = simulatedIdentityId 0;
         managerIdentity = empty_obj\<lparr>
           obj_id := Some managerIdentityId, name := Some ''Jane Manager'',
           email := Some ''jane.manager@example.com'',
           attributes := Some [(''displayName'', ''Jane Manager''),
             (''mail'', ''jane.manager@example.com''), (''department'', ''Management'')],
           lifecycleState := Some ''active'',
           accounts := Some [\<lparr> acc_id = ''sim-acc-mgr-'' @ string_of_nat 0,
             nativeIdentity = ''janemgr'', sourceId = ''AD'',
             sourceName = ''Active Directory'', acc_status = enabled \<rparr>],
           access := Some [] \<rparr>;
         user1IdentityId = simulatedIdentityId 1;
         user1Identity = empty_obj\<lparr>
           obj_id := Some user1IdentityId, name := Some ''John Doe User'',
           email := Some ''john.doe.user@example.com'',
           attributes := Some [(''displayName'', ''John Doe User''),
             (''mail'', ''john.doe.user@example.com''), (''department'', ''IT''),
             (''title'', ''Developer'')],
           lifecycleState := Some ''active'',
           manager := Some (managerIdentityId, ''Jane Manager''),
           accounts := Some [
             \<lparr> acc_id = ''sim-acc-jd1-'' @ string_of_nat 1, nativeIdentity = ''johndoe'',
               sourceId = ''AD'', sourceName = ''Active Directory'', acc_status = enabled \<rparr>,
             \<lparr> acc_id = ''sim-acc-jd2-'' @ string_of_nat 2, nativeIdentity = ''jdoe'',
               sourceId = ''Salesforce'', sourceName = ''Salesforce CRM'',
               acc_status = enabled \<rparr>],
           access := Some [
             \<lparr> ai_id = ''ap-contractor-base'', ai_type = ''ACCESS_PROFILE'',
               ai_name = ''Contractor Base Access'',
               ai_description = ''Basic network and email access for contractors.'' \<rparr>,
             \<lparr> ai_id = ''role-developer-tools'', ai_type = ''ROLE'',
               ai_name = ''Developer Tools Suite'',
               ai_description = ''Access to standard developer applications.'' \<rparr>] \<rparr>
     in \<lparr> heap = (builtins(0 := managerIdentity))(1 := user1Identity),
          nextRef = 15,
          simulatedAccountsStore = [],
          simulatedIdentitiesStore = [(managerIdentityId, 0), (user1IdentityId, 1)],
          accountCounter = 3,
          identityCounter = 2 \<rparr>)"

section \<open>The provisioning simulator\<close>

text \<open>
  What a read \<^verbatim>\<open>store[k]\<close> finds on \<^verbatim>\<open>Object.prototype\<close>: a member, or the string that an
  earlier \<^verbatim>\<open>identity.lifecycleState = ...\<close> has put there when the identity in hand was
  \<^verbatim>\<open>Object.prototype\<close>. Every such read of the module is tested for truthiness, so an
  empty string counts as nothing. \<open>getProperty\<close> is the read: the own property first.
\<close>

definition inherited :: "state \<Rightarrow> string \<Rightarrow> nat option" where
  "inherited s k =
     (case map_of prototypeMembers k of
        Some r \<Rightarrow> Some r
      | None \<Rightarrow>
          if k = ''lifecycleState'' \<and> truthy (lifecycleState (heap s prototypeRef))
          then Some primitiveRef else None)"

definition getProperty :: "state \<Rightarrow> store \<Rightarrow> string \<Rightarrow> nat option" where
  "getProperty s st k = (case map_of st k of Some r \<Rightarrow> Some r | None \<Rightarrow> inherited s k)"

text \<open>
  The object at a reference as a property read sees it: \<^verbatim>\<open>lifecycleState\<close> is the only
  property the module ever writes to \<^verbatim>\<open>Object.prototype\<close>, and an object that has none
  of its own shows that one.
\<close>

definition readObject :: "state \<Rightarrow> nat \<Rightarrow> jsobj" where
  "readObject s r =
     (case lifecycleState (heap s r) of
        Some v \<Rightarrow> heap s r
      | None \<Rightarrow> (heap s r)\<lparr> lifecycleState := lifecycleState (heap s prototypeRef) \<rparr>)"

text \<open>
  \<^verbatim>\<open>findIdentityById\<close>: the property read first, then the scan of the store for an object
  whose \<^verbatim>\<open>id\<close> is the argument. The result is the reference, or \<open>None\<close> for \<^verbatim>\<open>null\<close>.
  (A \<^verbatim>\<open>for\<close>-\<^verbatim>\<open>in\<close> loop also visits an enumerable property of the prototype; the only
  one there can be is the string under \<^verbatim>\<open>lifecycleState\<close>, which has no \<^verbatim>\<open>id\<close>, no
  \<^verbatim>\<open>email\<close> and no \<^verbatim>\<open>accounts\<close>, so the three scans of the module pass over it.)
\<close>

definition findIdentityById :: "state \<Rightarrow> string \<Rightarrow> nat option" where
  "findIdentityById s identityId' =
     (case getProperty s (simulatedIdentitiesStore s) identityId' of
        Some r \<Rightarrow> Some r
      | None \<Rightarrow>
          map_option snd
            (find (\<lambda>(key, r). obj_id (heap s r) = Some identityId')
               (simulatedIdentitiesStore s)))"

text \<open>The data of a \<^verbatim>\<open>202\<close> or \<^verbatim>\<open>404\<close> answer of the three submitting operations.\<close>

datatype activity_data =
    Message string
  | Activity string string task_status string

fun activity_id :: "activity_data \<Rightarrow> string option" where
  "activity_id (Message m) = None"
| "activity_id (Activity i t st n) = Some i"

text \<open>
  \<^verbatim>\<open>simulateCreateAccount\<close>. \<open>identityName\<close> is the expression for \<^verbatim>\<open>name\<close> in the
  object literal \<^verbatim>\<open>newIdentity\<close>; a missing attribute inside the template literal reads
  \<^verbatim>\<open>undefined\<close>.
\<close>

definition identityName :: "account_data \<Rightarrow> string" where
  "identityName accountData' =
     (let attrs = map_of (ad_attributes accountData') in
      js_str (or_else (attrs ''displayName'')
        (Some (js_str (attrs ''givenName'') @ '' '' @
               js_str (or_else (attrs ''sn'') (attrs ''lastName''))))))"

definition newIdentity :: "string \<Rightarrow> string \<Rightarrow> account_data \<Rightarrow> jsobj" where
  "newIdentity identityId' accountId' accountData' =
     (let attrs = map_of (ad_attributes accountData') in
      empty_obj\<lparr>
        obj_id := Some identityId',
        name := Some (identityName accountData'),
        email := attrs ''mail'',
        attributes := Some (ad_attributes accountData'),
        lifecycleState := Some ''active'',
        sourceAccountId := Some accountId',
        accounts := Some [\<lparr> acc_id = accountId',
          nativeIdentity = js_str (or_else (attrs ''sAMAccountName'') (Some accountId')),
          sourceId = ad_sourceId accountData',
          sourceName = ad_sourceId accountData',
          acc_status = enabled \<rparr>],
        access := Some [] \<rparr>)"

definition simulateCreateAccount ::
  "state \<Rightarrow> account_data \<Rightarrow> nat \<Rightarrow> (nat \<times> activity_data) \<times> state" where
  "simulateCreateAccount s accountData' now =
    (let taskId = accountCreationTaskId now;
         accountId' = simulatedAccountId (accountCounter s);
         s = s\<lparr> accountCounter := Suc (accountCounter s) \<rparr>;
         (t, s) = alloc s (empty_obj\<lparr> status := Some QUEUED, accountId := Some accountId',
                     accountData := Some accountData' \<rparr>);
         s = s\<lparr> simulatedAccountsStore := AList.update taskId t (simulatedAccountsStore s) \<rparr>;
         identityId' = simulatedIdentityId (identityCounter s);
         s = s\<lparr> identityCounter := Suc (identityCounter s) \<rparr>;
         (i, s) = alloc s (newIdentity identityId' accountId' accountData');
         s = s\<lparr> simulatedIdentitiesStore := AList.update accountId' i (simulatedIdentitiesStore s) \<rparr>;
         s = s\<lparr> simulatedIdentitiesStore := AList.update identityId' i (simulatedIdentitiesStore s) \<rparr>
     in ((202, Activity taskId ''ACCOUNT_ACTIVITY'' QUEUED
            (''Create account for '' @ identityName accountData')), s))"

text \<open>
  The \<^verbatim>\<open>result\<close> of a task snapshot is one of the two object literals of the source.
  The routes test \<^verbatim>\<open>!taskResult.result\<close>, so the property is optional for them.
\<close>

datatype task_result =
    AccountResult string "string option" string
  | GenericResult string

record task_snapshot =
  ts_id :: string
  ts_type :: string
  ts_name :: "string option"
  ts_status :: "task_status option"
  ts_result :: "task_result option"

datatype task_data = TaskMessage string | TaskData task_snapshot

text \<open>The object a task id denotes: \<^verbatim>\<open>simulatedAccountsStore[taskId] || simulatedIdentitiesStore[taskId]\<close>.\<close>

definition taskDetailsOf :: "state \<Rightarrow> string \<Rightarrow> nat option" where
  "taskDetailsOf s taskId =
     (case getProperty s (simulatedAccountsStore s) taskId of
        Some r \<Rightarrow> Some r
      | None \<Rightarrow> getProperty s (simulatedIdentitiesStore s) taskId)"

text \<open>The \<^verbatim>\<open>if\<close>/\<^verbatim>\<open>else if\<close> of the status query, on the object it has in hand.\<close>

definition advanceStatus :: "jsobj \<Rightarrow> jsobj" where
  "advanceStatus taskDetails =
     (if status taskDetails = Some QUEUED then taskDetails\<lparr> status := Some PROCESSING \<rparr>
      else if status taskDetails = Some PROCESSING then taskDetails\<lparr> status := Some COMPLETED \<rparr>
      else taskDetails)"

text \<open>
  \<^verbatim>\<open>simulateGetTaskStatus\<close>. The status is advanced before the result is built, so the
  new state is returned also when building the result throws: reading
  \<^verbatim>\<open>taskDetails.accountData.sourceId\<close> is a \<^verbatim>\<open>TypeError\<close> when the object has an
  \<^verbatim>\<open>accountId\<close> and no \<^verbatim>\<open>accountData\<close>.
\<close>

definition simulateGetTaskStatus ::
  "state \<Rightarrow> string \<Rightarrow> (error + nat \<times> task_data) \<times> state" where
  "simulateGetTaskStatus s taskId =
    (case taskDetailsOf s taskId of
       None \<Rightarrow> (Inr (404, TaskMessage (''Task '' @ taskId @ '' not found (simulated).'')), s)
     | Some r \<Rightarrow>
        (let taskDetails = advanceStatus (heap s r);
             s = s\<lparr> heap := (heap s)(r := taskDetails) \<rparr>
         in if truthy (accountId taskDetails) then
              (case accountData taskDetails of
                 None \<Rightarrow>
                   (Inl (TypeError ''Cannot read properties of undefined (reading 'sourceId')''), s)
               | Some ad \<Rightarrow>
                   (Inr (200, TaskData \<lparr>
                      ts_id = taskId,
                      ts_type = js_str (or_else (obj_type taskDetails) (Some ''GENERIC_TASK'')),
                      ts_name = name taskDetails,
                      ts_status = status taskDetails,
                      ts_result = Some (AccountResult (js_str (accountId taskDetails))
                        (case findIdentityById s (js_str (accountId taskDetails)) of
                           None \<Rightarrow> None
                         | Some i \<Rightarrow> obj_id (heap s i))
                        (ad_sourceId ad)) \<rparr>), s))
            else
              (Inr (200, TaskData \<lparr>
                 ts_id = taskId,
                 ts_type = js_str (or_else (obj_type taskDetails) (Some ''GENERIC_TASK'')),
                 ts_name = name taskDetails,
                 ts_status = status taskDetails,
                 ts_result = Some (GenericResult
                   (js_str (name taskDetails) @ '' completed successfully.'')) \<rparr>),
               s)))"

text \<open>
  \<^verbatim>\<open>simulateSearchIdentity\<close>. The scan by email has no \<^verbatim>\<open>break\<close>: it keeps the last
  object of the store whose \<^verbatim>\<open>email\<close> is the one asked for.
\<close>

record query_params =
  qp_email :: "string option"
  qp_accountId :: "string option"
  qp_identityId :: "string option"

record identity_view =
  iv_id :: "string option"
  iv_name :: "string option"
  iv_attributes :: "(string \<times> string) list option"
  iv_lifecycleState :: "string option"
  iv_manager :: "(string \<times> string) option"
  iv_accounts :: "account list option"

text \<open>The object literal of the answer, read off the object that was found.\<close>

definition identityView :: "jsobj \<Rightarrow> identity_view" where
  "identityView identityToReturn =
     \<lparr> iv_id = obj_id identityToReturn, iv_name = name identityToReturn,
       iv_attributes = attributes identityToReturn,
       iv_lifecycleState = lifecycleState identityToReturn,
       iv_manager = manager identityToReturn, iv_accounts = accounts identityToReturn \<rparr>"

definition simulateSearchIdentity :: "state \<Rightarrow> query_params \<Rightarrow> nat \<times> identity_view list" where
  "simulateSearchIdentity s queryParams =
    (let identityToReturn =
           (if truthy (qp_email queryParams) then
              fold (\<lambda>(key, r) found. if email (heap s r) = qp_email queryParams then Some r else found)
                (simulatedIdentitiesStore s) None
            else if truthy (qp_accountId queryParams) then
              (case findIdentityById s (js_str (qp_accountId queryParams)) of
                 Some r \<Rightarrow> Some r
               | None \<Rightarrow>
                   find (\<lambda>r. sourceAccountId (heap s r) = qp_accountId queryParams)
                     (map snd (simulatedIdentitiesStore s)))
            else if truthy (qp_identityId queryParams) then
              findIdentityById s (js_str (qp_identityId queryParams))
            else None)
     in case identityToReturn of
          Some r \<Rightarrow> (200, [identityView (readObject s r)])
        | None \<Rightarrow> (404, []))"

definition simulateListAccountsByIdentity :: "state \<Rightarrow> string \<Rightarrow> nat \<times> account list" where
  "simulateListAccountsByIdentity s identityId' =
    (case findIdentityById s identityId' of
       None \<Rightarrow> (200, [])
     | Some r \<Rightarrow> (case accounts (heap s r) of None \<Rightarrow> (200, []) | Some accs \<Rightarrow> (200, accs)))"

text \<open>\<^verbatim>\<open>Array.prototype.findIndex\<close>, with \<open>None\<close> for \<^verbatim>\<open>-1\<close>.\<close>

fun findIndex :: "('a \<Rightarrow> bool) \<Rightarrow> 'a list \<Rightarrow> nat option" where
  "findIndex P [] = None"
| "findIndex P (x # xs) = (if P x then Some 0 else map_option Suc (findIndex P xs))"

text \<open>
  The scan of \<^verbatim>\<open>simulateDisableAccount\<close>: the first entry of the identities store whose
  object has an \<^verbatim>\<open>accounts\<close> array holding an account with the given id. It yields the key,
  the reference of the object and the position of the account (\<^verbatim>\<open>targetAccount\<close> is the
  element at that position).
\<close>

fun scanForAccount :: "(nat \<Rightarrow> jsobj) \<Rightarrow> string \<Rightarrow> store \<Rightarrow> (string \<times> nat \<times> nat) option" where
  "scanForAccount h accountId' [] = None"
| "scanForAccount h accountId' ((idKey, r) # rest) =
     (case accounts (h r) of
        None \<Rightarrow> scanForAccount h accountId' rest
      | Some accs \<Rightarrow>
          (case findIndex (\<lambda>acc. acc_id acc = accountId') accs of
             Some i \<Rightarrow> Some (idKey, r, i)
           | None \<Rightarrow> scanForAccount h accountId' rest))"

text \<open>The assignment \<^verbatim>\<open>accounts[i].status = 'disabled'\<close> on the object at \<open>r\<close>.\<close>

definition setAccountDisabled :: "nat \<Rightarrow> nat \<Rightarrow> state \<Rightarrow> state" where
  "setAccountDisabled r i s =
     (case accounts (heap s r) of
        None \<Rightarrow> s
      | Some accs \<Rightarrow>
          s\<lparr> heap := (heap s)(r := (heap s r)\<lparr> accounts :=
                 Some (accs[i := (accs ! i)\<lparr> acc_status := disabled \<rparr>]) \<rparr>) \<rparr>)"

text \<open>
  \<^verbatim>\<open>simulateDisableAccount\<close>. After the write through \<^verbatim>\<open>targetAccount\<close> the source reads
  \<^verbatim>\<open>simulatedIdentitiesStore[identityKeyForAccount]\<close>, which is the object the scan has just
  read under that key, looks the account up again by \<^verbatim>\<open>findIndex\<close> and writes the status
  a second time.
\<close>

definition simulateDisableAccount ::
  "state \<Rightarrow> string \<Rightarrow> nat \<Rightarrow> (nat \<times> activity_data) \<times> state" where
  "simulateDisableAccount s accountId' now =
    (case scanForAccount (heap s) accountId' (simulatedIdentitiesStore s) of
       None \<Rightarrow>
         ((404, Message (''Account '' @ accountId' @ '' not found for disabling (simulated).'')), s)
     | Some (identityKeyForAccount, r, i) \<Rightarrow>
        (let s = setAccountDisabled r i s;
             s = (case accounts (heap s r) of
                    None \<Rightarrow> s
                  | Some accs \<Rightarrow>
                      (case findIndex (\<lambda>a. acc_id a = accountId') accs of
                         Some accIndex \<Rightarrow> setAccountDisabled r accIndex s
                       | None \<Rightarrow> s));
             taskId = disableAccountTaskId now;
             (t, s) = alloc s (empty_obj\<lparr> status := Some QUEUED, accountId := Some accountId',
                         obj_type := Some ''ACCOUNT_DISABLE_TASK'',
                         name := Some (''Disable account '' @ accountId') \<rparr>);
             s = s\<lparr> simulatedAccountsStore := AList.update taskId t (simulatedAccountsStore s) \<rparr>
         in ((202, Activity taskId ''ACCOUNT_ACTIVITY'' QUEUED (''Disable account '' @ accountId')), s)))"

text \<open>
  \<^verbatim>\<open>simulateSetLifecycleState\<close>. The cascade is tied to the literal \<^verbatim>\<open>'terminated'\<close>.
  The task object goes into the identities store, under the task id. The identity in hand
  is whatever \<^verbatim>\<open>findIdentityById\<close> has found; the module is not in strict mode, so the
  assignment to a property of a string does nothing.
\<close>

definition simulateSetLifecycleState ::
  "state \<Rightarrow> string \<Rightarrow> string \<Rightarrow> nat \<Rightarrow> (nat \<times> activity_data) \<times> state" where
  "simulateSetLifecycleState s identityId' newLifecycleState now =
    (case findIdentityById s identityId' of
       None \<Rightarrow>
         ((404, Message (''Identity '' @ identityId' @
                   '' not found for lifecycle state change (simulated).'')), s)
     | Some r \<Rightarrow>
        (let s = (if r = primitiveRef then s
                  else s\<lparr> heap := (heap s)(r := (heap s r)\<lparr> lifecycleState :=
                         Some newLifecycleState \<rparr>) \<rparr>);
             s = (if newLifecycleState = ''terminated'' then
                    (case accounts (heap s r) of
                       None \<Rightarrow> s
                     | Some accs \<Rightarrow>
                         s\<lparr> heap := (heap s)(r := (heap s r)\<lparr> accounts :=
                                Some (map (\<lambda>acc. acc\<lparr> acc_status := disabled \<rparr>) accs) \<rparr>) \<rparr>)
                  else s);
             taskId = setLcsTaskId now;
             identityName = js_str (name (heap s r));
             (t, s) = alloc s (empty_obj\<lparr> status := Some QUEUED, identityId := Some identityId',
                         obj_type := Some ''LIFECYCLE_STATE_CHANGE_TASK'',
                         name := Some (''Set lifecycle state to '' @ newLifecycleState @
                                       '' for '' @ identityName) \<rparr>);
             s = s\<lparr> simulatedIdentitiesStore := AList.update taskId t (simulatedIdentitiesStore s) \<rparr>
         in ((202, Activity taskId ''IDENTITY_LIFECYCLE_UPDATE'' QUEUED
                (''Lifecycle state change for '' @ identityName @ '' to '' @ newLifecycleState)), s)))"

section \<open>The poller and the contractor workflows\<close>

text \<open>
  \<^verbatim>\<open>pollTaskStatus(taskId, attempts, delay)\<close>: the \<^verbatim>\<open>for\<close> loop with its counter \<open>i\<close>.
  A query that throws is caught inside the loop body; the delay between attempts changes
  no state. The caller passes \<open>js_str\<close> of a task id that may be \<^verbatim>\<open>undefined\<close>, which is
  how the property read and the template literal of the query see it.
\<close>

function pollLoop :: "state \<Rightarrow> string \<Rightarrow> nat \<Rightarrow> nat \<Rightarrow> (error + task_snapshot) \<times> state" where
  "pollLoop s taskId attempts i =
     (if i < attempts then
        (case simulateGetTaskStatus s taskId of
           (Inl err, s') \<Rightarrow> pollLoop s' taskId attempts (Suc i)
         | (Inr (code, TaskMessage m), s') \<Rightarrow> pollLoop s' taskId attempts (Suc i)
         | (Inr (code, TaskData snap), s') \<Rightarrow>
             (if ts_status snap = Some COMPLETED then (Inr snap, s')
              else pollLoop s' taskId attempts (Suc i)))
      else
        (Inl (ApiError 500 (''Task '' @ taskId @ '' did not complete after '' @
                 string_of_nat attempts @ '' attempts.'')), s))"
  by pat_completeness auto
termination
  by (relation "measure (\<lambda>(s, taskId, attempts, i). attempts - i)") auto

declare pollLoop.simps [simp del]

definition pollTaskStatus :: "state \<Rightarrow> string \<Rightarrow> nat \<Rightarrow> (error + task_snapshot) \<times> state" where
  "pollTaskStatus s taskId attempts = pollLoop s taskId attempts 0"

text \<open>The environment variables the routes read.\<close>

record env =
  SAILPOINT_CONTRACTOR_SOURCE_ID :: "string option"
  SAILPOINT_TERMINATED_LCS :: "string option"














record offboard_request =
  contractorSailPointIdentityId :: "string option"
  justification :: "string option"
  revokeAllAccess :: bool

record offboard_response =
  of_mcpTrackingId :: string
  sailpointTaskActivityId :: "string option"

text \<open>
  \<^verbatim>\<open>router.post('/offboard')\<close>. The route reads \<^verbatim>\<open>lcsResponse.data.id\<close> without looking at
  the status of the answer, so after a \<^verbatim>\<open>404\<close> it polls the task id \<^verbatim>\<open>undefined\<close>.
\<close>

definition offboard ::
  "state \<Rightarrow> env \<Rightarrow> offboard_request \<Rightarrow> nat \<Rightarrow> nat \<Rightarrow> (error + offboard_response) \<times> state" where
  "offboard s e req now0 now1 =
    (let mcpTrackingId = ''mcp-offboarding-'' @ string_of_nat now0 in
     if \<not> truthy (contractorSailPointIdentityId req)
     then (Inl (BadRequestError ''contractorSailPointIdentityId is required.''), s)
     else
      (let terminatedLifecycleState =
             js_str (or_else (SAILPOINT_TERMINATED_LCS e) (Some ''terminated''));
           (lcsResponse, s) = simulateSetLifecycleState s
              (js_str (contractorSailPointIdentityId req)) terminatedLifecycleState now1;
           lcsChangeTaskId = activity_id (snd lcsResponse)
       in case pollTaskStatus s (js_str lcsChangeTaskId) 5 of
            (Inl err, s) \<Rightarrow> (Inl err, s)
          | (Inr taskResult, s) \<Rightarrow>
              (if ts_status taskResult \<noteq> Some COMPLETED then
                 (Inl (ApiError 500
                    ''Contractor offboarding failed at SailPoint (simulated lifecycle state change).''),
                  s)
               else
                 (Inr \<lparr> of_mcpTrackingId = mcpTrackingId,
                        sailpointTaskActivityId = lcsChangeTaskId \<rparr>, s))))"

section \<open>Notions used to state the properties\<close>

text \<open>The state after \<open>k\<close> status queries of one task id.\<close>

definition queries :: "state \<Rightarrow> string \<Rightarrow> nat \<Rightarrow> state" where
  "queries s taskId k = ((\<lambda>s. snd (simulateGetTaskStatus s taskId)) ^^ k) s"

text \<open>
  The test of the poller on one query: the snapshot when the query returns one whose
  status is \<open>COMPLETED\<close>, and \<open>None\<close> when it returns anything else or throws.
\<close>

definition completedSnapshot :: "state \<Rightarrow> string \<Rightarrow> task_snapshot option" where
  "completedSnapshot s taskId =
     (case fst (simulateGetTaskStatus s taskId) of
        Inl err \<Rightarrow> None
      | Inr (code, TaskMessage m) \<Rightarrow> None
      | Inr (code, TaskData snap) \<Rightarrow> if ts_status snap = Some COMPLETED then Some snap else None)"

text \<open>
  The states the module can be in: the state after loading, and the state after any call
  of one of the four operations that write to the stores, with any arguments and at any
  clock.
\<close>

inductive reachable :: "state \<Rightarrow> bool" where
  module_loaded: "reachable initial_state"
| after_createAccount:
    "reachable s \<Longrightarrow> reachable (snd (simulateCreateAccount s accountData' now))"
| after_getTaskStatus:
    "reachable s \<Longrightarrow> reachable (snd (simulateGetTaskStatus s taskId))"
| after_disableAccount:
    "reachable s \<Longrightarrow> reachable (snd (simulateDisableAccount s accountId' now))"
| after_setLifecycleState:
    "reachable s \<Longrightarrow>
     reachable (snd (simulateSetLifecycleState s identityId' newLifecycleState now))"

text \<open>Every reference held by a store denotes an object that has been created.\<close>

definition refs_allocated :: "state \<Rightarrow> bool" where
  "refs_allocated s =
     (\<forall>k r. (k, r) \<in> set (simulatedAccountsStore s) \<union> set (simulatedIdentitiesStore s)
        \<longrightarrow> r < nextRef s)"

text \<open>
  The keys of the identities store are identity ids and account ids the counters have
  already handed out, and lifecycle task ids.
\<close>

definition identity_keys_issued :: "state \<Rightarrow> bool" where
  "identity_keys_issued s =
     (\<forall>k \<in> fst ` set (simulatedIdentitiesStore s).
        (\<exists>n < identityCounter s. k = simulatedIdentityId n) \<or>
        (\<exists>n < accountCounter s. k = simulatedAccountId n) \<or>
        (\<exists>t. k = setLcsTaskId t))"

text \<open>The keys of the accounts store are ids of creation tasks and of disable tasks.\<close>

definition task_keys_issued :: "state \<Rightarrow> bool" where
  "task_keys_issued s =
     (\<forall>k \<in> fst ` set (simulatedAccountsStore s).
        (\<exists>t. k = accountCreationTaskId t) \<or> (\<exists>t. k = disableAccountTaskId t))"

text \<open>The account ids listed by the object at a reference.\<close>

definition accountIdsOf :: "state \<Rightarrow> nat \<Rightarrow> string list" where
  "accountIdsOf s r = (case accounts (heap s r) of None \<Rightarrow> [] | Some accs \<Rightarrow> map acc_id accs)"

text \<open>
  The account ids found in the heap are the three of the loaded module and those the
  account counter has already handed out.
\<close>

definition account_ids_issued :: "state \<Rightarrow> bool" where
  "account_ids_issued s =
     (\<forall>r. \<forall>a \<in> set (accountIdsOf s r).
        a \<in> {''sim-acc-mgr-0'', ''sim-acc-jd1-1'', ''sim-acc-jd2-2''} \<or>
        (\<exists>n < accountCounter s. a = simulatedAccountId n))"

text \<open>
  No object lists an account id twice, and no two objects list the same account id.
\<close>

definition account_ids_unique :: "state \<Rightarrow> bool" where
  "account_ids_unique s =
     ((\<forall>r. distinct (accountIdsOf s r)) \<and>
      (\<forall>r1 r2. r1 \<noteq> r2 \<longrightarrow> set (accountIdsOf s r1) \<inter> set (accountIdsOf s r2) = {}))"

text \<open>
  The objects behind the inherited members are as they were when the module was loaded,
  but for a lifecycle state, which is all that is ever written to them; nothing is written
  to a string; and no store holds a reference to one of them.
\<close>

definition members_kept :: "state \<Rightarrow> bool" where
  "members_kept s =
     (15 \<le> nextRef s
      \<and> (\<forall>r. 2 \<le> r \<and> r < 14 \<longrightarrow> (heap s r)\<lparr> lifecycleState := None \<rparr> = builtins r)
      \<and> heap s primitiveRef = empty_obj
      \<and> (\<forall>k r. (k, r) \<in> set (simulatedAccountsStore s) \<union> set (simulatedIdentitiesStore s)
             \<longrightarrow> r < 2 \<or> 15 \<le> r))"

text \<open>An object that has an email has a lifecycle state of its own.\<close>

definition identities_have_state :: "state \<Rightarrow> bool" where
  "identities_have_state s =
     (\<forall>r. email (heap s r) \<noteq> None \<longrightarrow> lifecycleState (heap s r) \<noteq> None)"

text \<open>
  The states reached from a state by calls of the four operations, none of which creates
  an account whose \<open>mail\<close> attribute is the given one.
\<close>

inductive later :: "string \<Rightarrow> state \<Rightarrow> state \<Rightarrow> bool" for mail :: string and s0 :: state where
  later_now: "later mail s0 s0"
| later_createAccount:
    "later mail s0 s \<Longrightarrow> map_of (ad_attributes accountData') ''mail'' \<noteq> Some mail \<Longrightarrow>
     later mail s0 (snd (simulateCreateAccount s accountData' now))"
| later_getTaskStatus:
    "later mail s0 s \<Longrightarrow> later mail s0 (snd (simulateGetTaskStatus s taskId))"
| later_disableAccount:
    "later mail s0 s \<Longrightarrow> later mail s0 (snd (simulateDisableAccount s accountId' now))"
| later_setLifecycleState:
    "later mail s0 s \<Longrightarrow>
     later mail s0 (snd (simulateSetLifecycleState s identityId' newLifecycleState now))"

text \<open>
  The identity with the \<open>m\<close>-th identity id and the \<open>n\<close>-th account id is the object at
  \<open>r\<close>: both ids have been handed out and are keys of the identities store for \<open>r\<close>, the
  object has the identity id and the email \<open>mail\<close>, and no entry that follows the one
  of the identity id holds an object with that email.
\<close>

definition indexed :: "state \<Rightarrow> string \<Rightarrow> nat \<Rightarrow> nat \<Rightarrow> nat \<Rightarrow> bool" where
  "indexed s mail n m r =
     (n < accountCounter s \<and> m < identityCounter s
      \<and> map_of (simulatedIdentitiesStore s) (simulatedAccountId n) = Some r
      \<and> map_of (simulatedIdentitiesStore s) (simulatedIdentityId m) = Some r
      \<and> obj_id (heap s r) = Some (simulatedIdentityId m)
      \<and> email (heap s r) = Some mail
      \<and> (\<exists>pre post. simulatedIdentitiesStore s = pre @ (simulatedIdentityId m, r) # post
             \<and> (\<forall>k' r'. (k', r') \<in> set post \<longrightarrow> email (heap s r') \<noteq> Some mail)))"

text \<open>
  The states of the example scenarios: an account created in the fresh module at clock 5;
  after it, a second account with the same mail attribute created at clock 6; and, instead,
  the first account disabled at clock 9.
\<close>

definition created_state :: state where
  "created_state =
     snd (simulateCreateAccount initial_state
       \<lparr> ad_sourceId = ''s1'',
         ad_attributes = [(''mail'', ''a@x.com''), (''displayName'', ''A B'')] \<rparr> 5)"

definition twice_created_state :: state where
  "twice_created_state =
     snd (simulateCreateAccount created_state
       \<lparr> ad_sourceId = ''s2'', ad_attributes = [(''mail'', ''a@x.com'')] \<rparr> 6)"

definition disabled_state :: state where
  "disabled_state = snd (simulateDisableAccount created_state ''simulated-accountId-3'' 9)"

section \<open>Properties\<close>

subsection \<open>The example states, evaluated\<close>

lemmas key_defs = simulatedAccountId_def simulatedIdentityId_def accountCreationTaskId_def
  disableAccountTaskId_def setLcsTaskId_def

lemmas eval_defs = simulateCreateAccount_def newIdentity_def identityName_def key_defs
  simulateDisableAccount_def
  simulateSetLifecycleState_def setAccountDisabled_def alloc_def initial_state_def Let_def
  string_of_nat.simps digit_char_def empty_obj_def js_str_def or_else_def truthy_def

lemmas lookup_defs = getProperty_def inherited_def prototypeMembers_def

lemma getProperty_own [simp]:
  "map_of st k = Some r \<Longrightarrow> getProperty s st k = Some r"
  by (simp add: getProperty_def)

lemma inherited_generated [simp]:
  "inherited s (simulatedAccountId n) = None"
  "inherited s (simulatedIdentityId n) = None"
  "inherited s (accountCreationTaskId n) = None"
  "inherited s (disableAccountTaskId n) = None"
  "inherited s (setLcsTaskId n) = None"
  by (simp_all add: inherited_def prototypeMembers_def key_defs)

lemma getProperty_generated [simp]:
  "getProperty s st (simulatedAccountId n) = map_of st (simulatedAccountId n)"
  "getProperty s st (simulatedIdentityId n) = map_of st (simulatedIdentityId n)"
  "getProperty s st (accountCreationTaskId n) = map_of st (accountCreationTaskId n)"
  "getProperty s st (disableAccountTaskId n) = map_of st (disableAccountTaskId n)"
  "getProperty s st (setLcsTaskId n) = map_of st (setLcsTaskId n)"
  by (simp_all add: getProperty_def split: option.split)

lemma inherited_cong:
  "lifecycleState (heap s' prototypeRef) = lifecycleState (heap s prototypeRef) \<Longrightarrow>
   inherited s' k = inherited s k"
  by (simp add: inherited_def split: option.split)

lemma getProperty_cong:
  "lifecycleState (heap s' prototypeRef) = lifecycleState (heap s prototypeRef) \<Longrightarrow>
   getProperty s' st k = getProperty s st k"
  using inherited_cong [of s' s k] by (simp add: getProperty_def split: option.split)

lemma builtins_fields [simp]:
  "accounts (builtins r) = None" "obj_id (builtins r) = None" "email (builtins r) = None"
  "lifecycleState (builtins r) = None" "status (builtins r) = None"
  "accountId (builtins r) = None" "accountData (builtins r) = None"
  "sourceAccountId (builtins r) = None"
  by (simp_all add: builtins_def prototypeMembers_def memberObject_def empty_obj_def)

lemma created_state_stores:
  "simulatedAccountsStore created_state = [(''account-creation-task-5'', 15)]"
  "simulatedIdentitiesStore created_state =
     [(''simulated-identityId-0'', 0), (''simulated-identityId-1'', 1),
      (''simulated-accountId-3'', 16), (''simulated-identityId-2'', 16)]"
  "nextRef created_state = 17" "accountCounter created_state = 4"
  "identityCounter created_state = 3"
  by (simp_all add: created_state_def eval_defs)

lemma created_state_task:
  "heap created_state 15 = empty_obj\<lparr> status := Some QUEUED,
     accountId := Some ''simulated-accountId-3'',
     accountData := Some \<lparr> ad_sourceId = ''s1'',
         ad_attributes = [(''mail'', ''a@x.com''), (''displayName'', ''A B'')] \<rparr> \<rparr>"
  by (simp add: created_state_def eval_defs)

lemma created_state_identity:
  "heap created_state 16 = empty_obj\<lparr>
     obj_id := Some ''simulated-identityId-2'', name := Some ''A B'',
     email := Some ''a@x.com'',
     attributes := Some [(''mail'', ''a@x.com''), (''displayName'', ''A B'')],
     lifecycleState := Some ''active'',
     sourceAccountId := Some ''simulated-accountId-3'',
     accounts := Some [\<lparr> acc_id = ''simulated-accountId-3'',
       nativeIdentity = ''simulated-accountId-3'', sourceId = ''s1'', sourceName = ''s1'',
       acc_status = enabled \<rparr>],
     access := Some [] \<rparr>"
  by (simp add: created_state_def eval_defs)

lemma created_state_preloaded:
  "accounts (heap created_state 0) = Some [\<lparr> acc_id = ''sim-acc-mgr-0'',
     nativeIdentity = ''janemgr'', sourceId = ''AD'', sourceName = ''Active Directory'',
     acc_status = enabled \<rparr>]"
  "accounts (heap created_state (Suc 0)) = Some [
     \<lparr> acc_id = ''sim-acc-jd1-1'', nativeIdentity = ''johndoe'', sourceId = ''AD'',
       sourceName = ''Active Directory'', acc_status = enabled \<rparr>,
     \<lparr> acc_id = ''sim-acc-jd2-2'', nativeIdentity = ''jdoe'', sourceId = ''Salesforce'',
       sourceName = ''Salesforce CRM'', acc_status = enabled \<rparr>]"
  by (simp_all add: created_state_def eval_defs)

lemma created_state_taskDetails:
  "taskDetailsOf created_state ''account-creation-task-5'' = Some 15"
  by (simp add: taskDetailsOf_def created_state_stores)

lemma created_state_findIdentity:
  "findIdentityById created_state ''simulated-accountId-3'' = Some 16"
  by (simp add: findIdentityById_def created_state_stores)

lemma created_state_query:
  "fst (simulateGetTaskStatus created_state ''account-creation-task-5'') =
     Inr (200, TaskData \<lparr> ts_id = ''account-creation-task-5'', ts_type = ''GENERIC_TASK'',
       ts_name = None, ts_status = Some PROCESSING,
       ts_result = Some (AccountResult ''simulated-accountId-3''
         (Some ''simulated-identityId-2'') ''s1'') \<rparr>)"
  by (simp add: simulateGetTaskStatus_def created_state_taskDetails created_state_task
      advanceStatus_def Let_def empty_obj_def truthy_def js_str_def or_else_def
      findIdentityById_def created_state_stores created_state_identity)

lemma disabled_state_stores:
  "simulatedAccountsStore disabled_state =
     [(''account-creation-task-5'', 15), (''disable-account-task-9'', 17)]"
  "simulatedIdentitiesStore disabled_state = simulatedIdentitiesStore created_state"
  "heap disabled_state 17 = empty_obj\<lparr> status := Some QUEUED,
     accountId := Some ''simulated-accountId-3'',
     obj_type := Some ''ACCOUNT_DISABLE_TASK'',
     name := Some ''Disable account simulated-accountId-3'' \<rparr>"
  "fst (simulateDisableAccount created_state ''simulated-accountId-3'' 9) =
     (202, Activity ''disable-account-task-9'' ''ACCOUNT_ACTIVITY'' QUEUED
        ''Disable account simulated-accountId-3'')"
  by (simp_all add: disabled_state_def simulateDisableAccount_def created_state_stores
      created_state_identity created_state_preloaded setAccountDisabled_def key_defs alloc_def Let_def
      string_of_nat.simps digit_char_def empty_obj_def)


subsection \<open>The task state machine\<close>

lemma findIdentityById_cong:
  assumes "simulatedIdentitiesStore s' = simulatedIdentitiesStore s"
    and "\<And>r. obj_id (heap s' r) = obj_id (heap s r)"
    and "lifecycleState (heap s' prototypeRef) = lifecycleState (heap s prototypeRef)"
  shows "findIdentityById s' k = findIdentityById s k"
proof -
  have "find (\<lambda>(key, r). obj_id (heap s' r) = Some k) (simulatedIdentitiesStore s)
      = find (\<lambda>(key, r). obj_id (heap s r) = Some k) (simulatedIdentitiesStore s)"
    by (rule find_cong) (auto simp: assms(2))
  then show ?thesis
    unfolding findIdentityById_def assms(1) getProperty_cong [OF assms(3)]
    by (simp split: option.split)
qed

lemma advanceStatus_fields [simp]:
  "obj_id (advanceStatus td) = obj_id td" "name (advanceStatus td) = name td"
  "accountId (advanceStatus td) = accountId td" "accountData (advanceStatus td) = accountData td"
  "obj_type (advanceStatus td) = obj_type td" "accounts (advanceStatus td) = accounts td"
  "email (advanceStatus td) = email td" "sourceAccountId (advanceStatus td) = sourceAccountId td"
  "lifecycleState (advanceStatus td) = lifecycleState td"
  by (simp_all add: advanceStatus_def)

lemma getProperty_advance [simp]:
  "getProperty (s\<lparr> heap := (heap s)(r := advanceStatus (heap s r)) \<rparr>) st k = getProperty s st k"
  by (rule getProperty_cong) simp

lemma taskDetailsOf_advance [simp]:
  "taskDetailsOf (s\<lparr> heap := (heap s)(r := advanceStatus (heap s r)) \<rparr>) k = taskDetailsOf s k"
  by (simp add: taskDetailsOf_def split: option.split)

lemma getTaskStatus_found:
  assumes "taskDetailsOf s taskId = Some r"
  shows "simulateGetTaskStatus s taskId =
    (let td = advanceStatus (heap s r); s1 = s\<lparr> heap := (heap s)(r := td) \<rparr> in
     if truthy (accountId td) then
       (case accountData td of
          None \<Rightarrow> (Inl (TypeError ''Cannot read properties of undefined (reading 'sourceId')''), s1)
        | Some ad \<Rightarrow>
           (Inr (200, TaskData \<lparr> ts_id = taskId,
              ts_type = js_str (or_else (obj_type td) (Some ''GENERIC_TASK'')),
              ts_name = name td, ts_status = status td,
              ts_result = Some (AccountResult (js_str (accountId td))
                 (case findIdentityById s (js_str (accountId td)) of None \<Rightarrow> None
                  | Some i \<Rightarrow> obj_id (heap s i)) (ad_sourceId ad)) \<rparr>), s1))
     else
       (Inr (200, TaskData \<lparr> ts_id = taskId,
              ts_type = js_str (or_else (obj_type td) (Some ''GENERIC_TASK'')),
              ts_name = name td, ts_status = status td,
              ts_result = Some (GenericResult (js_str (name td) @ '' completed successfully.'')) \<rparr>), s1))"
proof -
  have fi: "findIdentityById (s\<lparr> heap := (heap s)(r := advanceStatus (heap s r)) \<rparr>) k
              = findIdentityById s k" for k
    by (rule findIdentityById_cong) simp_all
  have oi: "obj_id (if i = r then advanceStatus (heap s r) else heap s i) = obj_id (heap s i)" for i
    by simp
  show ?thesis
    using assms
    by (simp add: simulateGetTaskStatus_def Let_def fi oi cong: option.case_cong if_cong)
qed

lemma getTaskStatus_state:
  "snd (simulateGetTaskStatus s taskId) =
     (case taskDetailsOf s taskId of
        None \<Rightarrow> s
      | Some r \<Rightarrow> s\<lparr> heap := (heap s)(r := advanceStatus (heap s r)) \<rparr>)"
  by (simp add: simulateGetTaskStatus_def Let_def split: option.splits)

text \<open>
  C1. For every task of the ledger, a status query moves the status one stage along
  \<open>QUEUED\<close>, \<open>PROCESSING\<close>, \<open>COMPLETED\<close> and leaves \<open>COMPLETED\<close> where it is; the task
  id keeps denoting the same object, the snapshot (when the query returns one) shows the
  new status, and no other object changes. The status is written before the result is
  built, so this holds also for a query that throws.
\<close>

theorem getTaskStatus_advances_one_stage:
  assumes "taskDetailsOf s taskId = Some r" and "status (heap s r) = Some st"
  shows "taskDetailsOf (snd (simulateGetTaskStatus s taskId)) taskId = Some r
     \<and> status (heap (snd (simulateGetTaskStatus s taskId)) r) =
         Some (case st of QUEUED \<Rightarrow> PROCESSING | PROCESSING \<Rightarrow> COMPLETED | COMPLETED \<Rightarrow> COMPLETED)
     \<and> (\<forall>code snap. fst (simulateGetTaskStatus s taskId) = Inr (code, TaskData snap) \<longrightarrow>
           ts_status snap =
             Some (case st of QUEUED \<Rightarrow> PROCESSING | PROCESSING \<Rightarrow> COMPLETED | COMPLETED \<Rightarrow> COMPLETED))
     \<and> (\<forall>r'. r' \<noteq> r \<longrightarrow> heap (snd (simulateGetTaskStatus s taskId)) r' = heap s r')"
proof -
  let ?next = "case st of QUEUED \<Rightarrow> PROCESSING | PROCESSING \<Rightarrow> COMPLETED | COMPLETED \<Rightarrow> COMPLETED"
  have s1: "snd (simulateGetTaskStatus s taskId) =
      s\<lparr> heap := (heap s)(r := advanceStatus (heap s r)) \<rparr>"
    using assms(1) by (simp add: getTaskStatus_state)
  have adv: "status (advanceStatus (heap s r)) = Some ?next"
    using assms(2) by (cases st) (simp_all add: advanceStatus_def)
  have "taskDetailsOf (snd (simulateGetTaskStatus s taskId)) taskId = Some r"
    unfolding s1 using assms(1) by simp
  moreover have "status (heap (snd (simulateGetTaskStatus s taskId)) r) = Some ?next"
    unfolding s1 using adv by simp
  moreover have "ts_status snap = Some ?next"
    if "fst (simulateGetTaskStatus s taskId) = Inr (code, TaskData snap)" for code snap
    using that adv
    by (auto simp: getTaskStatus_found [OF assms(1)] Let_def split: if_splits option.splits)
  moreover have "heap (snd (simulateGetTaskStatus s taskId)) r' = heap s r'" if "r' \<noteq> r" for r'
    unfolding s1 using that by simp
  ultimately show ?thesis by blast
qed

theorem getTaskStatus_advances_one_stage_witness:
  "taskDetailsOf created_state ''account-creation-task-5'' = Some 15
   \<and> status (heap created_state 15) = Some QUEUED
   \<and> status (heap (snd (simulateGetTaskStatus created_state ''account-creation-task-5'')) 15)
       = Some PROCESSING"
proof -
  have h2: "status (heap created_state 15) = Some QUEUED"
    by (simp add: created_state_task empty_obj_def)
  from getTaskStatus_advances_one_stage [OF created_state_taskDetails h2]
    created_state_taskDetails h2
  show ?thesis by simp
qed

text \<open>
  C4, as the code has it. Every snapshot the status query returns carries a result,
  whatever its status: the next query of the same task returns a snapshot with the same
  result. Only the status tells whether the task is complete.
\<close>

theorem getTaskStatus_result_at_every_stage:
  assumes "fst (simulateGetTaskStatus s taskId) = Inr (code, TaskData snap)"
  shows "ts_result snap \<noteq> None \<and>
     (\<exists>snap'. fst (simulateGetTaskStatus (snd (simulateGetTaskStatus s taskId)) taskId) =
                 Inr (code, TaskData snap') \<and> ts_result snap' = ts_result snap)"
proof (cases "taskDetailsOf s taskId")
  case None
  with assms show ?thesis by (simp add: simulateGetTaskStatus_def)
next
  case (Some r)
  let ?s1 = "s\<lparr> heap := (heap s)(r := advanceStatus (heap s r)) \<rparr>"
  have tdo: "taskDetailsOf ?s1 taskId = Some r"
    using Some by simp
  have fi: "findIdentityById ?s1 k = findIdentityById s k" for k
    by (rule findIdentityById_cong) simp_all
  note second = getTaskStatus_found[OF tdo]
  note first = getTaskStatus_found[OF Some]
  show ?thesis
  proof (cases "truthy (accountId (heap s r))")
    case False
    have A: "simulateGetTaskStatus s taskId = (Inr (200, TaskData \<lparr> ts_id = taskId,
              ts_type = js_str (or_else (obj_type (heap s r)) (Some ''GENERIC_TASK'')),
              ts_name = name (heap s r), ts_status = status (advanceStatus (heap s r)),
              ts_result = Some (GenericResult
                (js_str (name (heap s r)) @ '' completed successfully.'')) \<rparr>), ?s1)"
      using False by (simp add: first Let_def)
    have B: "fst (simulateGetTaskStatus ?s1 taskId) = Inr (200, TaskData \<lparr> ts_id = taskId,
              ts_type = js_str (or_else (obj_type (heap s r)) (Some ''GENERIC_TASK'')),
              ts_name = name (heap s r),
              ts_status = status (advanceStatus (advanceStatus (heap s r))),
              ts_result = Some (GenericResult
                (js_str (name (heap s r)) @ '' completed successfully.'')) \<rparr>)"
      using False by (simp add: second Let_def)
    from assms show ?thesis
      unfolding A by (auto simp: B)
  next
    case True
    then obtain ad where ad: "accountData (heap s r) = Some ad"
      using assms by (cases "accountData (heap s r)") (simp_all add: first Let_def)
    let ?res = "Some (AccountResult (js_str (accountId (heap s r)))
                 (case findIdentityById s (js_str (accountId (heap s r))) of None \<Rightarrow> None
                  | Some i \<Rightarrow> obj_id (heap s i)) (ad_sourceId ad))"
    have A: "simulateGetTaskStatus s taskId = (Inr (200, TaskData \<lparr> ts_id = taskId,
              ts_type = js_str (or_else (obj_type (heap s r)) (Some ''GENERIC_TASK'')),
              ts_name = name (heap s r), ts_status = status (advanceStatus (heap s r)),
              ts_result = ?res \<rparr>), ?s1)"
      using True ad by (simp add: first Let_def)
    have B: "fst (simulateGetTaskStatus ?s1 taskId) = Inr (200, TaskData \<lparr> ts_id = taskId,
              ts_type = js_str (or_else (obj_type (heap s r)) (Some ''GENERIC_TASK'')),
              ts_name = name (heap s r),
              ts_status = status (advanceStatus (advanceStatus (heap s r))),
              ts_result = ?res \<rparr>)"
      using True ad by (simp add: second Let_def fi split: option.split)
    from assms show ?thesis
      unfolding A by (auto simp: B)
  qed
qed

theorem getTaskStatus_result_at_every_stage_witness:
  "fst (simulateGetTaskStatus created_state ''account-creation-task-5'') =
     Inr (200, TaskData \<lparr> ts_id = ''account-creation-task-5'', ts_type = ''GENERIC_TASK'',
       ts_name = None, ts_status = Some PROCESSING,
       ts_result = Some (AccountResult ''simulated-accountId-3''
         (Some ''simulated-identityId-2'') ''s1'') \<rparr>)
   \<and> (\<exists>snap'. fst (simulateGetTaskStatus
          (snd (simulateGetTaskStatus created_state ''account-creation-task-5''))
          ''account-creation-task-5'') = Inr (200, TaskData snap')
        \<and> ts_result snap' = Some (AccountResult ''simulated-accountId-3''
         (Some ''simulated-identityId-2'') ''s1''))"
  using getTaskStatus_result_at_every_stage [OF created_state_query] created_state_query
  by simp

text \<open>
  The claim C4 as the specification states it fails on the first query of a new task: the
  snapshot says \<open>PROCESSING\<close> and already holds the account and identity ids.
\<close>

theorem getTaskStatus_result_before_completed:
  "fst (simulateGetTaskStatus created_state ''account-creation-task-5'') =
     Inr (200, TaskData \<lparr> ts_id = ''account-creation-task-5'', ts_type = ''GENERIC_TASK'',
       ts_name = None, ts_status = Some PROCESSING,
       ts_result = Some (AccountResult ''simulated-accountId-3''
         (Some ''simulated-identityId-2'') ''s1'') \<rparr>)"
  by (rule created_state_query)

subsection \<open>The poller\<close>

lemma completedSnapshot_Some:
  "completedSnapshot s taskId = Some snap \<longleftrightarrow>
     (\<exists>code. fst (simulateGetTaskStatus s taskId) = Inr (code, TaskData snap))
     \<and> ts_status snap = Some COMPLETED"
  by (auto simp: completedSnapshot_def split: sum.splits task_data.splits if_splits)

lemma pollLoop_step:
  assumes "i < attempts"
  shows "pollLoop s taskId attempts i =
     (case completedSnapshot s taskId of
        Some snap \<Rightarrow> (Inr snap, snd (simulateGetTaskStatus s taskId))
      | None \<Rightarrow> pollLoop (snd (simulateGetTaskStatus s taskId)) taskId attempts (Suc i))"
  using assms
  by (subst pollLoop.simps)
     (auto simp: completedSnapshot_def split: prod.splits sum.splits task_data.splits)

lemma pollLoop_exhausted:
  assumes "\<not> i < attempts"
  shows "pollLoop s taskId attempts i =
     (Inl (ApiError 500 (''Task '' @ taskId @ '' did not complete after '' @
             string_of_nat attempts @ '' attempts.'')), s)"
  using assms by (subst pollLoop.simps) simp

lemma queries_Suc: "queries s taskId (Suc k) = queries (snd (simulateGetTaskStatus s taskId)) taskId k"
  unfolding queries_def by (simp only: funpow_Suc_right o_apply)

lemma queries_0 [simp]: "queries s taskId 0 = s"
  by (simp add: queries_def)

lemma pollLoop_char:
  "pollLoop s taskId attempts i =
     (if \<exists>k. i + k < attempts \<and> completedSnapshot (queries s taskId k) taskId \<noteq> None
      then (let k = (LEAST k. completedSnapshot (queries s taskId k) taskId \<noteq> None)
            in (Inr (the (completedSnapshot (queries s taskId k) taskId)),
                queries s taskId (Suc k)))
      else (Inl (ApiError 500 (''Task '' @ taskId @ '' did not complete after '' @
                   string_of_nat attempts @ '' attempts.'')),
            queries s taskId (attempts - i)))"
proof (induction "attempts - i" arbitrary: s i)
  case 0
  then show ?case by (simp add: pollLoop_exhausted)
next
  case (Suc d)
  then have lt: "i < attempts" by simp
  let ?s' = "snd (simulateGetTaskStatus s taskId)"
  show ?case
  proof (cases "completedSnapshot s taskId")
    case (Some snap)
    have least: "(LEAST k. completedSnapshot (queries s taskId k) taskId \<noteq> None) = 0"
      by (rule Least_equality) (simp_all add: Some)
    have ex: "\<exists>k. i + k < attempts \<and> completedSnapshot (queries s taskId k) taskId \<noteq> None"
      by (rule exI[of _ 0]) (simp add: lt Some)
    have q1: "queries s taskId (Suc 0) = snd (simulateGetTaskStatus s taskId)"
      by (simp add: queries_Suc)
    show ?thesis
      unfolding pollLoop_step[OF lt] if_P[OF ex] least Let_def queries_0 q1
      by (simp add: Some)
  next
    case None
    have d: "d = attempts - Suc i" using Suc.hyps(2) by simp
    note IH = Suc.hyps(1)[OF d, of ?s']
    have shift: "(\<exists>k. i + k < attempts \<and> completedSnapshot (queries s taskId k) taskId \<noteq> None)
        \<longleftrightarrow> (\<exists>k. Suc i + k < attempts \<and> completedSnapshot (queries ?s' taskId k) taskId \<noteq> None)"
      (is "?L \<longleftrightarrow> ?R")
    proof
      assume ?L
      then obtain k where k: "i + k < attempts" "completedSnapshot (queries s taskId k) taskId \<noteq> None"
        by blast
      with None obtain k' where "k = Suc k'" by (cases k) auto
      with k show ?R by (auto simp: queries_Suc)
    next
      assume ?R
      then obtain k where "Suc i + k < attempts" "completedSnapshot (queries ?s' taskId k) taskId \<noteq> None"
        by blast
      then show ?L by (intro exI[of _ "Suc k"]) (simp add: queries_Suc)
    qed
    have least: "(LEAST k. completedSnapshot (queries s taskId k) taskId \<noteq> None)
        = Suc (LEAST k. completedSnapshot (queries ?s' taskId k) taskId \<noteq> None)"
      if "\<exists>k. completedSnapshot (queries ?s' taskId k) taskId \<noteq> None"
    proof -
      from that obtain k where k: "completedSnapshot (queries s taskId (Suc k)) taskId \<noteq> None"
        by (auto simp: queries_Suc)
      have "(LEAST k. completedSnapshot (queries s taskId k) taskId \<noteq> None)
          = Suc (LEAST k. completedSnapshot (queries s taskId (Suc k)) taskId \<noteq> None)"
        by (rule Least_Suc[where P = "\<lambda>k. completedSnapshot (queries s taskId k) taskId \<noteq> None", OF k])
           (simp add: None)
      then show ?thesis by (simp add: queries_Suc)
    qed
    show ?thesis
    proof (cases "\<exists>k. Suc i + k < attempts \<and> completedSnapshot (queries ?s' taskId k) taskId \<noteq> None")
      case True
      then have ex': "\<exists>k. completedSnapshot (queries ?s' taskId k) taskId \<noteq> None" by blast
      from True shift have L: "\<exists>k. i + k < attempts \<and> completedSnapshot (queries s taskId k) taskId \<noteq> None"
        by simp
      show ?thesis
        unfolding pollLoop_step[OF lt] None option.case IH if_P[OF True] if_P[OF L] least[OF ex']
        by (simp add: Let_def queries_Suc)
    next
      case False
      from False shift have L: "\<not> (\<exists>k. i + k < attempts \<and> completedSnapshot (queries s taskId k) taskId \<noteq> None)"
        by simp
      have "queries ?s' taskId (attempts - Suc i) = queries s taskId (attempts - i)"
        using lt by (simp add: queries_Suc[symmetric] Suc_diff_Suc)
      then show ?thesis
        unfolding pollLoop_step[OF lt] None option.case IH if_not_P[OF False] if_not_P[OF L]
        by simp
    qed
  qed
qed


text \<open>
  C8. \<open>pollTaskStatus\<close> with a budget of \<open>attempts\<close> queries. It resolves with a snapshot
  exactly when one of the first \<open>attempts\<close> queries reports \<open>COMPLETED\<close>: the snapshot is
  that of the first such query and no query is made after it. It fails exactly when none
  of them does, after \<open>attempts\<close> queries, with the \<open>500\<close> error that names the task id and
  the number of attempts. A query that throws or answers \<open>404\<close> counts as one that did not
  report \<open>COMPLETED\<close> (\<open>completedSnapshot\<close> is \<open>None\<close> for it), and the loop goes on.
\<close>

theorem pollTaskStatus_bounded_retry:
  "(pollTaskStatus s taskId attempts = (Inr snap, s') \<longleftrightarrow>
      (\<exists>k<attempts. (\<forall>j<k. completedSnapshot (queries s taskId j) taskId = None)
          \<and> completedSnapshot (queries s taskId k) taskId = Some snap
          \<and> s' = queries s taskId (Suc k)))
   \<and> (pollTaskStatus s taskId attempts = (Inl err, s') \<longleftrightarrow>
      (\<forall>j<attempts. completedSnapshot (queries s taskId j) taskId = None)
      \<and> err = ApiError 500 (''Task '' @ taskId @ '' did not complete after '' @
                  string_of_nat attempts @ '' attempts.'')
      \<and> s' = queries s taskId attempts)"
proof -
  define cs where "cs k = completedSnapshot (queries s taskId k) taskId" for k
  define L where "L = (LEAST k. cs k \<noteq> None)"
  define timeout where "timeout = ApiError 500 (''Task '' @ taskId @
    '' did not complete after '' @ string_of_nat attempts @ '' attempts.'')"
  have char: "pollTaskStatus s taskId attempts =
     (if \<exists>k. k < attempts \<and> cs k \<noteq> None
      then (Inr (the (cs L)), queries s taskId (Suc L))
      else (Inl timeout, queries s taskId attempts))"
    unfolding pollTaskStatus_def cs_def L_def timeout_def
    using pollLoop_char [of s taskId attempts 0]
    by (simp only: Let_def add_0 minus_nat.diff_0)
  have goal: "(pollTaskStatus s taskId attempts = (Inr snap, s') \<longleftrightarrow>
      (\<exists>k<attempts. (\<forall>j<k. cs j = None) \<and> cs k = Some snap \<and> s' = queries s taskId (Suc k)))
   \<and> (pollTaskStatus s taskId attempts = (Inl err, s') \<longleftrightarrow>
      (\<forall>j<attempts. cs j = None) \<and> err = timeout \<and> s' = queries s taskId attempts)"
  proof (cases "\<exists>k. k < attempts \<and> cs k \<noteq> None")
    case True
    then obtain k0 where k0: "k0 < attempts" "cs k0 \<noteq> None" by auto
    have res: "pollTaskStatus s taskId attempts = (Inr (the (cs L)), queries s taskId (Suc L))"
      unfolding char if_P[OF True] ..
    have PL: "cs L \<noteq> None"
      unfolding L_def by (rule LeastI[of "\<lambda>k. cs k \<noteq> None", OF k0(2)])
    have "L \<le> k0"
      unfolding L_def by (rule Least_le[of "\<lambda>k. cs k \<noteq> None", OF k0(2)])
    with k0(1) have Llt: "L < attempts" by simp
    have before: "cs j = None" if "j < L" for j
      using not_less_Least[of j "\<lambda>k. cs k \<noteq> None"] that by (simp add: L_def)
    have uniq: "k = L" if all: "\<forall>j<k. cs j = None" and some: "cs k = Some snap" for k snap
    proof (rule antisym)
      show "L \<le> k"
        unfolding L_def by (rule Least_le) (simp add: some)
      show "k \<le> L"
      proof (rule ccontr)
        assume "\<not> k \<le> L"
        then have "L < k" by simp
        with all have "cs L = None" by simp
        with PL show False by simp
      qed
    qed
    have first: "(pollTaskStatus s taskId attempts = (Inr snap, s')) \<longleftrightarrow>
      (\<exists>k<attempts. (\<forall>j<k. cs j = None) \<and> cs k = Some snap \<and> s' = queries s taskId (Suc k))"
      (is "?A \<longleftrightarrow> ?B")
    proof
      assume a: ?A
      from a[unfolded res] have eq: "the (cs L) = snap" "s' = queries s taskId (Suc L)" by simp_all
      from PL obtain y where y: "cs L = Some y" by (cases "cs L") simp_all
      with eq(1) have csL: "cs L = Some snap" by simp
      have "L < attempts \<and> (\<forall>j<L. cs j = None) \<and> cs L = Some snap
            \<and> s' = queries s taskId (Suc L)"
        using Llt before csL eq(2) by simp
      then show ?B by (rule exI[of _ L])
    next
      assume ?B
      then obtain k where k: "\<forall>j<k. cs j = None" "cs k = Some snap" "s' = queries s taskId (Suc k)"
        by blast
      from uniq[OF k(1,2)] have kL: "k = L" .
      have csL: "cs L = Some snap" using k(2) unfolding kL .
      have sL: "s' = queries s taskId (Suc L)" using k(3) unfolding kL .
      show ?A unfolding res sL csL by simp
    qed
    have second: "\<not> (\<forall>j<attempts. cs j = None)"
      using k0 by auto
    have third: "pollTaskStatus s taskId attempts \<noteq> (Inl err, s')"
      unfolding res by simp
    show ?thesis
    proof (rule conjI)
      show "(pollTaskStatus s taskId attempts = (Inr snap, s')) \<longleftrightarrow>
        (\<exists>k<attempts. (\<forall>j<k. cs j = None) \<and> cs k = Some snap \<and> s' = queries s taskId (Suc k))"
        by (rule first)
      show "pollTaskStatus s taskId attempts = (Inl err, s') \<longleftrightarrow>
        (\<forall>j<attempts. cs j = None) \<and> err = timeout \<and> s' = queries s taskId attempts"
        using second third by simp
    qed
  next
    case False
    have res: "pollTaskStatus s taskId attempts = (Inl timeout, queries s taskId attempts)"
      unfolding char if_not_P[OF False] ..
    from False have none: "\<forall>j<attempts. cs j = None"
      by auto
    then have no: "\<not> (\<exists>k<attempts. (\<forall>j<k. cs j = None) \<and> cs k = Some snap
          \<and> s' = queries s taskId (Suc k))" by auto
    have a: "pollTaskStatus s taskId attempts \<noteq> (Inr snap, s')"
      unfolding res by simp
    have b: "pollTaskStatus s taskId attempts = (Inl err, s') \<longleftrightarrow>
       err = timeout \<and> s' = queries s taskId attempts"
      unfolding res by (simp add: eq_commute)
    show ?thesis
    proof (rule conjI)
      show "(pollTaskStatus s taskId attempts = (Inr snap, s')) \<longleftrightarrow>
        (\<exists>k<attempts. (\<forall>j<k. cs j = None) \<and> cs k = Some snap \<and> s' = queries s taskId (Suc k))"
        using no a by simp
      show "pollTaskStatus s taskId attempts = (Inl err, s') \<longleftrightarrow>
        (\<forall>j<attempts. cs j = None) \<and> err = timeout \<and> s' = queries s taskId attempts"
        using none b by simp
    qed
  qed
  then show ?thesis
    unfolding cs_def timeout_def .
qed

lemma disabled_state_query_throws:
  "fst (simulateGetTaskStatus disabled_state ''disable-account-task-9'') =
     Inl (TypeError ''Cannot read properties of undefined (reading 'sourceId')'')"
proof -
  have t: "taskDetailsOf disabled_state ''disable-account-task-9'' = Some 17"
    by (simp add: taskDetailsOf_def disabled_state_stores)
  show ?thesis
    by (simp add: getTaskStatus_found [OF t] Let_def disabled_state_stores empty_obj_def
        advanceStatus_def truthy_def)
qed

lemma getTaskStatus_stores [simp]:
  "simulatedAccountsStore (snd (simulateGetTaskStatus s taskId)) = simulatedAccountsStore s"
  "simulatedIdentitiesStore (snd (simulateGetTaskStatus s taskId)) = simulatedIdentitiesStore s"
  "nextRef (snd (simulateGetTaskStatus s taskId)) = nextRef s"
  "accountCounter (snd (simulateGetTaskStatus s taskId)) = accountCounter s"
  "identityCounter (snd (simulateGetTaskStatus s taskId)) = identityCounter s"
  by (simp_all add: getTaskStatus_state split: option.split)

lemma getTaskStatus_prototype [simp]:
  "lifecycleState (heap (snd (simulateGetTaskStatus s taskId)) r) = lifecycleState (heap s r)"
  by (simp add: getTaskStatus_state split: option.split)

lemma getTaskStatus_getProperty [simp]:
  "getProperty (snd (simulateGetTaskStatus s taskId)) st k = getProperty s st k"
  by (rule getProperty_cong) simp

lemma getTaskStatus_taskDetailsOf [simp]:
  "taskDetailsOf (snd (simulateGetTaskStatus s taskId)) k = taskDetailsOf s k"
  by (simp add: getTaskStatus_state split: option.split)

lemma getTaskStatus_findIdentityById [simp]:
  "findIdentityById (snd (simulateGetTaskStatus s taskId)) k = findIdentityById s k"
  by (rule findIdentityById_cong) (simp_all add: getTaskStatus_state split: option.split)

lemma created_state_second_query:
  "fst (simulateGetTaskStatus (snd (simulateGetTaskStatus created_state ''account-creation-task-5''))
      ''account-creation-task-5'') =
     Inr (200, TaskData \<lparr> ts_id = ''account-creation-task-5'', ts_type = ''GENERIC_TASK'',
       ts_name = None, ts_status = Some COMPLETED,
       ts_result = Some (AccountResult ''simulated-accountId-3''
         (Some ''simulated-identityId-2'') ''s1'') \<rparr>)"
proof -
  let ?s1 = "snd (simulateGetTaskStatus created_state ''account-creation-task-5'')"
  have t: "taskDetailsOf ?s1 ''account-creation-task-5'' = Some 15"
    by (simp add: created_state_taskDetails)
  have h2: "heap ?s1 15 = advanceStatus (heap created_state 15)"
    by (simp add: getTaskStatus_state created_state_taskDetails)
  have h3: "heap ?s1 16 = heap created_state 16"
    by (simp add: getTaskStatus_state created_state_taskDetails)
  show ?thesis
    by (simp add: getTaskStatus_found [OF t] Let_def h2 h3 created_state_task
        created_state_identity created_state_findIdentity advanceStatus_def empty_obj_def
        truthy_def js_str_def or_else_def)
qed

theorem pollTaskStatus_bounded_retry_witness:
  "pollTaskStatus created_state ''account-creation-task-5'' 5 =
       (Inr \<lparr> ts_id = ''account-creation-task-5'', ts_type = ''GENERIC_TASK'',
          ts_name = None, ts_status = Some COMPLETED,
          ts_result = Some (AccountResult ''simulated-accountId-3''
            (Some ''simulated-identityId-2'') ''s1'') \<rparr>,
        queries created_state ''account-creation-task-5'' 2)
   \<and> completedSnapshot disabled_state ''disable-account-task-9'' = None
   \<and> pollTaskStatus disabled_state ''disable-account-task-9'' 1 =
       (Inl (ApiError 500 ''Task disable-account-task-9 did not complete after 1 attempts.''),
        snd (simulateGetTaskStatus disabled_state ''disable-account-task-9''))"
proof -
  let ?snap = "\<lparr> ts_id = ''account-creation-task-5'', ts_type = ''GENERIC_TASK'',
          ts_name = None, ts_status = Some COMPLETED,
          ts_result = Some (AccountResult ''simulated-accountId-3''
            (Some ''simulated-identityId-2'') ''s1'') \<rparr>"
  have c0: "completedSnapshot (queries created_state ''account-creation-task-5'' 0)
      ''account-creation-task-5'' = None"
    by (simp add: completedSnapshot_def created_state_query)
  have q1: "queries created_state ''account-creation-task-5'' (Suc 0) =
      snd (simulateGetTaskStatus created_state ''account-creation-task-5'')"
    by (simp add: queries_def)
  have c1: "completedSnapshot (queries created_state ''account-creation-task-5'' (Suc 0))
      ''account-creation-task-5'' = Some ?snap"
    unfolding q1 by (simp add: completedSnapshot_def created_state_second_query)
  note T1 = pollTaskStatus_bounded_retry [where s = created_state
      and taskId = "''account-creation-task-5''" and attempts = 5 and snap = ?snap
      and s' = "queries created_state ''account-creation-task-5'' 2", THEN conjunct1]
  have first: "pollTaskStatus created_state ''account-creation-task-5'' 5 =
       (Inr ?snap, queries created_state ''account-creation-task-5'' 2)"
  proof (rule iffD2 [OF T1], rule exI [of _ "Suc 0"], intro conjI)
    show "Suc 0 < 5" by simp
    show "\<forall>j<Suc 0. completedSnapshot (queries created_state ''account-creation-task-5'' j)
      ''account-creation-task-5'' = None" using c0 by simp
    show "completedSnapshot (queries created_state ''account-creation-task-5'' (Suc 0))
      ''account-creation-task-5'' = Some ?snap" by (rule c1)
    show "queries created_state ''account-creation-task-5'' 2 =
      queries created_state ''account-creation-task-5'' (Suc (Suc 0))"
      by (simp add: numeral_2_eq_2)
  qed
  have none: "completedSnapshot disabled_state ''disable-account-task-9'' = None"
    by (simp add: completedSnapshot_def disabled_state_query_throws)
  have q: "queries disabled_state ''disable-account-task-9'' 1 =
      snd (simulateGetTaskStatus disabled_state ''disable-account-task-9'')"
    by (simp add: queries_def)
  have all: "\<forall>j<1. completedSnapshot (queries disabled_state ''disable-account-task-9'' j)
      ''disable-account-task-9'' = None"
    by (simp add: none)
  have msg: "''Task '' @ ''disable-account-task-9'' @ '' did not complete after '' @
      string_of_nat 1 @ '' attempts.'' =
      ''Task disable-account-task-9 did not complete after 1 attempts.''"
    by (simp add: string_of_nat.simps digit_char_def)
  note T = pollTaskStatus_bounded_retry [where s = disabled_state
      and taskId = "''disable-account-task-9''" and attempts = 1
      and err = "ApiError 500 ''Task disable-account-task-9 did not complete after 1 attempts.''"
      and s' = "snd (simulateGetTaskStatus disabled_state ''disable-account-task-9'')",
      THEN conjunct2]
  have second: "pollTaskStatus disabled_state ''disable-account-task-9'' 1 =
       (Inl (ApiError 500 ''Task disable-account-task-9 did not complete after 1 attempts.''),
        snd (simulateGetTaskStatus disabled_state ''disable-account-task-9''))"
  proof (rule iffD2 [OF T], intro conjI)
    show "\<forall>j<1. completedSnapshot (queries disabled_state ''disable-account-task-9'' j)
      ''disable-account-task-9'' = None" by (rule all)
    show "ApiError 500 ''Task disable-account-task-9 did not complete after 1 attempts.'' =
      ApiError 500 (''Task '' @ ''disable-account-task-9'' @ '' did not complete after '' @
        string_of_nat 1 @ '' attempts.'')"
      unfolding msg ..
    show "snd (simulateGetTaskStatus disabled_state ''disable-account-task-9'') =
      queries disabled_state ''disable-account-task-9'' 1"
      unfolding q ..
  qed
  from first none second show ?thesis by (intro conjI)
qed

subsection \<open>Account creation and the onboarding route\<close>

lemma keys_differ [simp]:
  "simulatedAccountId n \<noteq> simulatedIdentityId m"
  "simulatedIdentityId m \<noteq> simulatedAccountId n"
  "simulatedAccountId n \<noteq> setLcsTaskId t"
  "simulatedIdentityId m \<noteq> setLcsTaskId t"
  "setLcsTaskId t \<noteq> simulatedAccountId n"
  "setLcsTaskId t \<noteq> simulatedIdentityId m"
  "accountCreationTaskId t \<noteq> disableAccountTaskId u"
  "disableAccountTaskId u \<noteq> accountCreationTaskId t"
  by (simp_all add: key_defs)

lemma keys_nonempty [simp]:
  "simulatedAccountId n \<noteq> []" "simulatedIdentityId n \<noteq> []"
  by (simp_all add: key_defs)


lemma createAccount_snd:
  "snd (simulateCreateAccount s d now) =
     s\<lparr> heap := (heap s)
            (nextRef s := empty_obj\<lparr> status := Some QUEUED,
               accountId := Some (simulatedAccountId (accountCounter s)),
               accountData := Some d \<rparr>,
             Suc (nextRef s) := newIdentity
               (simulatedIdentityId (identityCounter s))
               (simulatedAccountId (accountCounter s)) d),
         nextRef := Suc (Suc (nextRef s)),
         simulatedAccountsStore :=
           AList.update (accountCreationTaskId now) (nextRef s)
             (simulatedAccountsStore s),
         simulatedIdentitiesStore :=
           AList.update (simulatedIdentityId (identityCounter s))
             (Suc (nextRef s))
             (AList.update (simulatedAccountId (accountCounter s))
                (Suc (nextRef s)) (simulatedIdentitiesStore s)),
         accountCounter := Suc (accountCounter s),
         identityCounter := Suc (identityCounter s) \<rparr>"
  by (simp add: simulateCreateAccount_def alloc_def Let_def)


text \<open>
  Polling a task that is \<open>QUEUED\<close> and has both an account id and the account data: the
  second query reports \<open>COMPLETED\<close>.
\<close>

lemma poll_queued_account_task:
  assumes t: "taskDetailsOf s taskId = Some r"
    and st: "status (heap s r) = Some QUEUED"
    and acc: "accountId (heap s r) = Some a" "a \<noteq> []"
    and ad: "accountData (heap s r) = Some d"
    and n: "2 \<le> attempts"
  shows "pollTaskStatus s taskId attempts =
     (Inr \<lparr> ts_id = taskId,
         ts_type = js_str (or_else (obj_type (heap s r)) (Some ''GENERIC_TASK'')),
         ts_name = name (heap s r), ts_status = Some COMPLETED,
         ts_result = Some (AccountResult a
            (case findIdentityById s a of None \<Rightarrow> None | Some i \<Rightarrow> obj_id (heap s i))
            (ad_sourceId d)) \<rparr>,
      queries s taskId 2)"
proof -
  let ?s1 = "snd (simulateGetTaskStatus s taskId)"
  have q1: "fst (simulateGetTaskStatus s taskId) =
     Inr (200, TaskData \<lparr> ts_id = taskId,
         ts_type = js_str (or_else (obj_type (heap s r)) (Some ''GENERIC_TASK'')),
         ts_name = name (heap s r), ts_status = Some PROCESSING,
         ts_result = Some (AccountResult a
            (case findIdentityById s a of None \<Rightarrow> None | Some i \<Rightarrow> obj_id (heap s i))
            (ad_sourceId d)) \<rparr>)"
    using st acc ad
    by (simp add: getTaskStatus_found [OF t] Let_def truthy_def js_str_def advanceStatus_def)
  have c0: "completedSnapshot s taskId = None"
    by (simp add: completedSnapshot_def q1)
  have t1: "taskDetailsOf ?s1 taskId = Some r" by (simp add: t)
  have h1: "heap ?s1 r = advanceStatus (heap s r)"
    by (simp add: getTaskStatus_state t)
  have oid: "obj_id (heap ?s1 i) = obj_id (heap s i)" for i
    by (simp add: getTaskStatus_state t)
  have q2: "fst (simulateGetTaskStatus ?s1 taskId) =
     Inr (200, TaskData \<lparr> ts_id = taskId,
         ts_type = js_str (or_else (obj_type (heap s r)) (Some ''GENERIC_TASK'')),
         ts_name = name (heap s r), ts_status = Some COMPLETED,
         ts_result = Some (AccountResult a
            (case findIdentityById s a of None \<Rightarrow> None | Some i \<Rightarrow> obj_id (heap s i))
            (ad_sourceId d)) \<rparr>)"
    using st acc ad
    by (simp add: getTaskStatus_found [OF t1] Let_def h1 oid truthy_def js_str_def
        advanceStatus_def split: option.split)
  have c1: "completedSnapshot ?s1 taskId = Some \<lparr> ts_id = taskId,
         ts_type = js_str (or_else (obj_type (heap s r)) (Some ''GENERIC_TASK'')),
         ts_name = name (heap s r), ts_status = Some COMPLETED,
         ts_result = Some (AccountResult a
            (case findIdentityById s a of None \<Rightarrow> None | Some i \<Rightarrow> obj_id (heap s i))
            (ad_sourceId d)) \<rparr>"
    by (simp add: completedSnapshot_def q2)
  have l0: "0 < attempts" and l1: "Suc 0 < attempts" using n by simp_all
  have q: "queries s taskId 2 = snd (simulateGetTaskStatus ?s1 taskId)"
    by (simp add: queries_def numeral_2_eq_2)
  show ?thesis
    unfolding pollTaskStatus_def pollLoop_step [OF l0] c0 option.case
      pollLoop_step [OF l1] c1 q ..
qed


lemma createAccount_then_poll:
  assumes n: "2 \<le> attempts"
  shows "pollTaskStatus (snd (simulateCreateAccount s d now))
       (accountCreationTaskId now) attempts =
     (Inr \<lparr> ts_id = accountCreationTaskId now,
         ts_type = ''GENERIC_TASK'', ts_name = None, ts_status = Some COMPLETED,
         ts_result = Some (AccountResult
            (simulatedAccountId (accountCounter s))
            (Some (simulatedIdentityId (identityCounter s)))
            (ad_sourceId d)) \<rparr>,
      queries (snd (simulateCreateAccount s d now))
        (accountCreationTaskId now) 2)"
proof -
  let ?s1 = "snd (simulateCreateAccount s d now)"
  let ?tid = "accountCreationTaskId now"
  let ?acc = "simulatedAccountId (accountCounter s)"
  let ?idn = "simulatedIdentityId (identityCounter s)"
  have t: "taskDetailsOf ?s1 ?tid = Some (nextRef s)"
    by (simp add: taskDetailsOf_def createAccount_snd update_conv')
  have h: "heap ?s1 (nextRef s) = empty_obj\<lparr> status := Some QUEUED,
               accountId := Some ?acc, accountData := Some d \<rparr>"
    by (simp add: createAccount_snd)
  have f: "findIdentityById ?s1 ?acc = Some (Suc (nextRef s))"
    by (simp add: findIdentityById_def createAccount_snd update_conv')
  have i: "obj_id (heap ?s1 (Suc (nextRef s))) = Some ?idn"
    by (simp add: createAccount_snd newIdentity_def Let_def)
  have "pollTaskStatus ?s1 ?tid attempts =
     (Inr \<lparr> ts_id = ?tid,
         ts_type = js_str (or_else (obj_type (heap ?s1 (nextRef s))) (Some ''GENERIC_TASK'')),
         ts_name = name (heap ?s1 (nextRef s)), ts_status = Some COMPLETED,
         ts_result = Some (AccountResult ?acc
            (case findIdentityById ?s1 ?acc of None \<Rightarrow> None | Some i \<Rightarrow> obj_id (heap ?s1 i))
            (ad_sourceId d)) \<rparr>,
      queries ?s1 ?tid 2)"
    by (rule poll_queued_account_task [OF t _ _ _ _ n]) (simp_all add: h empty_obj_def)
  then show ?thesis
    by (simp add: f i h empty_obj_def js_str_def or_else_def truthy_def)
qed



lemma queries_findIdentityById [simp]:
  "findIdentityById (queries s taskId k) x = findIdentityById s x"
  by (induction k arbitrary: s) (simp_all add: queries_Suc)

lemma queries_taskDetailsOf [simp]:
  "taskDetailsOf (queries s taskId k) x = taskDetailsOf s x"
  by (induction k arbitrary: s) (simp_all add: queries_Suc)




subsection \<open>Decimal numerals are injective\<close>

lemma digit_char_inj:
  assumes "d < 10" and "e < 10" and "digit_char d = digit_char e"
  shows "d = e"
proof -
  have "\<forall>x \<in> set [0..<10]. \<forall>y \<in> set [0..<10]. digit_char x = digit_char y \<longrightarrow> x = y"
    by code_simp
  with assms show ?thesis by simp
qed

lemma string_of_nat_nonempty: "string_of_nat n \<noteq> []"
  by (subst string_of_nat.simps) simp

lemma string_of_nat_inj: "string_of_nat n = string_of_nat m \<Longrightarrow> n = m"
proof (induction n arbitrary: m rule: string_of_nat.induct)
  case (1 n)
  show ?case
  proof (cases "n < 10")
    case True
    show ?thesis
    proof (cases "m < 10")
      case mlt: True
      from "1.prems" True mlt have "digit_char n = digit_char m"
        by (simp add: string_of_nat.simps)
      with True mlt show ?thesis by (rule digit_char_inj)
    next
      case False
      with "1.prems" True
      have "[digit_char n] = string_of_nat (m div 10) @ [digit_char (m mod 10)]"
        by (simp add: string_of_nat.simps [of n] string_of_nat.simps [of m])
      then have "string_of_nat (m div 10) = []" by simp
      with string_of_nat_nonempty show ?thesis by blast
    qed
  next
    case nge: False
    show ?thesis
    proof (cases "m < 10")
      case True
      with "1.prems" nge
      have "string_of_nat (n div 10) @ [digit_char (n mod 10)] = [digit_char m]"
        by (simp add: string_of_nat.simps [of n] string_of_nat.simps [of m])
      then have "string_of_nat (n div 10) = []" by simp
      with string_of_nat_nonempty show ?thesis by blast
    next
      case False
      with "1.prems" nge
      have eq: "string_of_nat (n div 10) @ [digit_char (n mod 10)]
              = string_of_nat (m div 10) @ [digit_char (m mod 10)]"
        by (simp add: string_of_nat.simps [of n] string_of_nat.simps [of m])
      then have "string_of_nat (n div 10) = string_of_nat (m div 10)"
        and d: "digit_char (n mod 10) = digit_char (m mod 10)" by simp_all
      with "1.IH" nge have q: "n div 10 = m div 10" by simp
      have "n mod 10 = m mod 10"
        by (rule digit_char_inj [OF _ _ d]) simp_all
      with q show ?thesis by (metis div_mult_mod_eq)
    qed
  qed
qed

lemma key_inj [simp]:
  "simulatedAccountId n = simulatedAccountId m \<longleftrightarrow> n = m"
  "simulatedIdentityId n = simulatedIdentityId m \<longleftrightarrow> n = m"
  by (auto simp: key_defs dest: string_of_nat_inj)

lemma preloaded_not_generated [simp]:
  "''sim-acc-mgr-0'' \<noteq> simulatedAccountId n"
  "''sim-acc-jd1-1'' \<noteq> simulatedAccountId n"
  "''sim-acc-jd2-2'' \<noteq> simulatedAccountId n"
  "simulatedAccountId n \<noteq> ''sim-acc-mgr-0''"
  "simulatedAccountId n \<noteq> ''sim-acc-jd1-1''"
  "simulatedAccountId n \<noteq> ''sim-acc-jd2-2''"
  by (simp_all add: key_defs)

subsection \<open>What each operation writes\<close>

lemma findIndex_Some:
  "findIndex P xs = Some i \<Longrightarrow> i < length xs \<and> P (xs ! i) \<and> (\<forall>j<i. \<not> P (xs ! j))"
proof (induction xs arbitrary: i)
  case Nil
  then show ?case by simp
next
  case (Cons x xs)
  show ?case
  proof (cases "P x")
    case True
    with Cons.prems show ?thesis by simp
  next
    case False
    with Cons.prems obtain i' where i': "findIndex P xs = Some i'" "i = Suc i'"
      by (auto split: if_splits)
    from Cons.IH [OF i'(1)] False i'(2) show ?thesis
      by (auto simp: nth_Cons' less_Suc_eq_0_disj)
  qed
qed

lemma findIndex_None: "findIndex P xs = None \<longleftrightarrow> (\<forall>x \<in> set xs. \<not> P x)"
  by (induction xs) auto

lemma findIndex_update:
  "findIndex P xs = Some i \<Longrightarrow> P y \<Longrightarrow> findIndex P (xs[i := y]) = Some i"
proof (induction xs arbitrary: i)
  case Nil
  then show ?case by simp
next
  case (Cons x xs)
  then show ?case
    by (cases i) (auto split: if_splits)
qed

lemma scanForAccount_Some:
  "scanForAccount h a st = Some (k, r, i) \<Longrightarrow>
     (k, r) \<in> set st \<and>
     (\<exists>accs. accounts (h r) = Some accs \<and> findIndex (\<lambda>acc. acc_id acc = a) accs = Some i)"
  by (induction st) (auto split: option.splits)

lemma findIndex_Some_iff: "(\<exists>i. findIndex P xs = Some i) \<longleftrightarrow> (\<exists>x \<in> set xs. P x)"
  using findIndex_None [of P xs] by (cases "findIndex P xs") auto

lemma scanForAccount_None:
  "scanForAccount h a st = None \<longleftrightarrow>
     (\<forall>(k, r) \<in> set st. \<forall>accs. accounts (h r) = Some accs \<longrightarrow> a \<notin> acc_id ` set accs)"
proof (induction st)
  case Nil
  show ?case by simp
next
  case (Cons p st)
  obtain k r where p: "p = (k, r)" by (cases p)
  show ?case
  proof (cases "accounts (h r)")
    case None
    with Cons p show ?thesis by simp
  next
    case (Some accs)
    show ?thesis
    proof (cases "findIndex (\<lambda>acc. acc_id acc = a) accs")
      case None
      then have "a \<notin> acc_id ` set accs" by (auto simp: findIndex_None)
      with Cons p Some None show ?thesis by simp
    next
      case (Some i)
      then have "\<exists>x \<in> set accs. acc_id x = a"
        using findIndex_Some_iff [of "\<lambda>acc. acc_id acc = a" accs] by blast
      then have "a \<in> acc_id ` set accs" by auto
      with p \<open>accounts (h r) = Some accs\<close> Some show ?thesis by auto
    qed
  qed
qed

text \<open>The account list with the account at one position disabled.\<close>

lemma disableAccount_found:
  assumes scan: "scanForAccount (heap s) a (simulatedIdentitiesStore s) = Some (k, r, i)"
    and accs: "accounts (heap s r) = Some accs"
  shows "simulateDisableAccount s a now =
    ((202, Activity (disableAccountTaskId now) ''ACCOUNT_ACTIVITY'' QUEUED (''Disable account '' @ a)),
     s\<lparr> heap := (heap s)
            (r := (heap s r)\<lparr> accounts := Some (accs[i := (accs ! i)\<lparr> acc_status := disabled \<rparr>]) \<rparr>,
             nextRef s := empty_obj\<lparr> status := Some QUEUED, accountId := Some a,
                obj_type := Some ''ACCOUNT_DISABLE_TASK'',
                name := Some (''Disable account '' @ a) \<rparr>),
         nextRef := Suc (nextRef s),
         simulatedAccountsStore :=
           AList.update (disableAccountTaskId now) (nextRef s) (simulatedAccountsStore s) \<rparr>)"
proof -
  from scanForAccount_Some [OF scan] accs
  have fi: "findIndex (\<lambda>acc. acc_id acc = a) accs = Some i" by simp
  from findIndex_Some [OF fi] have i: "i < length accs" "acc_id (accs ! i) = a" by simp_all
  have fi': "findIndex (\<lambda>acc. acc_id acc = a) (accs[i := (accs ! i)\<lparr> acc_status := disabled \<rparr>]) = Some i"
    by (rule findIndex_update [OF fi]) (simp add: i)
  show ?thesis
    by (simp add: simulateDisableAccount_def scan setAccountDisabled_def accs fi' alloc_def Let_def i)
qed

lemma disableAccount_not_found:
  assumes "scanForAccount (heap s) a (simulatedIdentitiesStore s) = None"
  shows "simulateDisableAccount s a now =
    ((404, Message (''Account '' @ a @ '' not found for disabling (simulated).'')), s)"
  using assms by (simp add: simulateDisableAccount_def)

lemma setLifecycleState_found:
  assumes "findIdentityById s iid = Some r"
  shows "simulateSetLifecycleState s iid st now =
    ((202, Activity (setLcsTaskId now) ''IDENTITY_LIFECYCLE_UPDATE'' QUEUED
        (''Lifecycle state change for '' @ js_str (name (heap s r)) @ '' to '' @ st)),
     s\<lparr> heap := (heap s)
            (r := (if r = primitiveRef then heap s r
                   else (heap s r)\<lparr> lifecycleState := Some st \<rparr>)\<lparr>
               accounts := (if st = ''terminated''
                  then map_option (map (\<lambda>acc. acc\<lparr> acc_status := disabled \<rparr>)) (accounts (heap s r))
                  else accounts (heap s r)) \<rparr>,
             nextRef s := empty_obj\<lparr> status := Some QUEUED, identityId := Some iid,
                obj_type := Some ''LIFECYCLE_STATE_CHANGE_TASK'',
                name := Some (''Set lifecycle state to '' @ st @ '' for '' @
                              js_str (name (heap s r))) \<rparr>),
         nextRef := Suc (nextRef s),
         simulatedIdentitiesStore :=
           AList.update (setLcsTaskId now) (nextRef s) (simulatedIdentitiesStore s) \<rparr>)"
proof -
  have obj: "ob\<lparr> accounts := v \<rparr> = ob" if "accounts ob = v" for ob :: jsobj and v
    using that by (cases ob) simp
  show ?thesis
    using assms
    by (cases "accounts (heap s r)")
       (auto simp: simulateSetLifecycleState_def alloc_def Let_def obj)
qed

lemma setLifecycleState_not_found:
  assumes "findIdentityById s iid = None"
  shows "simulateSetLifecycleState s iid st now =
    ((404, Message (''Identity '' @ iid @ '' not found for lifecycle state change (simulated).'')), s)"
  using assms by (simp add: simulateSetLifecycleState_def)

subsection \<open>Invariants of the reachable states\<close>

lemma set_update_subset: "set (AList.update k v al) \<subseteq> insert (k, v) (set al)"
  by (induction al) auto

lemma keys_update: "fst ` set (AList.update k v al) = insert k (fst ` set al)"
  using dom_update [of k v al] by simp

lemma accountIdsOf_createAccount:
  "accountIdsOf (snd (simulateCreateAccount s d now)) r =
     (if r = Suc (nextRef s) then [simulatedAccountId (accountCounter s)]
      else if r = nextRef s then [] else accountIdsOf s r)"
  by (simp add: accountIdsOf_def createAccount_snd newIdentity_def Let_def empty_obj_def)

lemma accountIdsOf_getTaskStatus [simp]:
  "accountIdsOf (snd (simulateGetTaskStatus s taskId)) r = accountIdsOf s r"
  by (simp add: accountIdsOf_def getTaskStatus_state split: option.split)

lemma map_acc_id_disable [simp]:
  "map acc_id (accs[i := (accs ! i)\<lparr> acc_status := disabled \<rparr>]) = map acc_id accs"
proof (rule nth_equalityI)
  show "length (map acc_id (accs[i := (accs ! i)\<lparr> acc_status := disabled \<rparr>])) =
        length (map acc_id accs)" by simp
  fix j
  assume "j < length (map acc_id (accs[i := (accs ! i)\<lparr> acc_status := disabled \<rparr>]))"
  then have j: "j < length accs" by simp
  show "map acc_id (accs[i := (accs ! i)\<lparr> acc_status := disabled \<rparr>]) ! j = map acc_id accs ! j"
    using j by (cases "i = j") (simp_all add: nth_list_update)
qed

lemma accountIdsOf_disableAccount:
  "accountIdsOf (snd (simulateDisableAccount s a now)) r = accountIdsOf s r
   \<or> accountIdsOf (snd (simulateDisableAccount s a now)) r = []"
proof (cases "scanForAccount (heap s) a (simulatedIdentitiesStore s)")
  case None
  then show ?thesis by (simp add: disableAccount_not_found)
next
  case (Some found)
  obtain k r' i where found: "found = (k, r', i)" by (cases found)
  from scanForAccount_Some [OF Some [unfolded found]]
  obtain accs where accs: "accounts (heap s r') = Some accs" by blast
  show ?thesis
    by (simp add: disableAccount_found [OF Some [unfolded found] accs] accountIdsOf_def accs
        empty_obj_def)
qed

lemma accountIdsOf_setLifecycleState:
  "accountIdsOf (snd (simulateSetLifecycleState s iid st now)) r = accountIdsOf s r
   \<or> accountIdsOf (snd (simulateSetLifecycleState s iid st now)) r = []"
proof (cases "findIdentityById s iid")
  case None
  then show ?thesis by (simp add: setLifecycleState_not_found)
next
  case (Some r')
  show ?thesis
    by (cases "accounts (heap s r')")
       (simp_all add: setLifecycleState_found [OF Some] accountIdsOf_def empty_obj_def comp_def)
qed

lemma unique_shrink:
  assumes "account_ids_unique s"
    and "\<And>r. accountIdsOf s' r = accountIdsOf s r \<or> accountIdsOf s' r = []"
  shows "account_ids_unique s'"
  unfolding account_ids_unique_def
proof (intro conjI allI impI)
  fix r
  from assms(1) have "distinct (accountIdsOf s r)" by (simp add: account_ids_unique_def)
  with assms(2) [of r] show "distinct (accountIdsOf s' r)" by auto
next
  fix r1 r2 :: nat
  assume "r1 \<noteq> r2"
  with assms(1) have "set (accountIdsOf s r1) \<inter> set (accountIdsOf s r2) = {}"
    by (simp add: account_ids_unique_def)
  with assms(2) [of r1] assms(2) [of r2]
  show "set (accountIdsOf s' r1) \<inter> set (accountIdsOf s' r2) = {}" by auto
qed

lemma issued_shrink:
  assumes "account_ids_issued s"
    and "\<And>r. accountIdsOf s' r = accountIdsOf s r \<or> accountIdsOf s' r = []"
    and "accountCounter s' = accountCounter s"
  shows "account_ids_issued s'"
  unfolding account_ids_issued_def
proof (intro allI ballI)
  fix r a
  assume a: "a \<in> set (accountIdsOf s' r)"
  with assms(2) [of r] have "a \<in> set (accountIdsOf s r)" by auto
  with assms(1) assms(3)
  show "a \<in> {''sim-acc-mgr-0'', ''sim-acc-jd1-1'', ''sim-acc-jd2-2''} \<or>
        (\<exists>n<accountCounter s'. a = simulatedAccountId n)"
    unfolding account_ids_issued_def by simp
qed

lemma disableAccount_counters [simp]:
  "accountCounter (snd (simulateDisableAccount s a now)) = accountCounter s"
  "identityCounter (snd (simulateDisableAccount s a now)) = identityCounter s"
  "simulatedIdentitiesStore (snd (simulateDisableAccount s a now)) = simulatedIdentitiesStore s"
  by (auto simp: simulateDisableAccount_def setAccountDisabled_def alloc_def Let_def
      split: option.splits prod.splits)

lemma setLifecycleState_counters [simp]:
  "accountCounter (snd (simulateSetLifecycleState s iid st now)) = accountCounter s"
  "identityCounter (snd (simulateSetLifecycleState s iid st now)) = identityCounter s"
  "simulatedAccountsStore (snd (simulateSetLifecycleState s iid st now)) = simulatedAccountsStore s"
  by (auto simp: simulateSetLifecycleState_def alloc_def Let_def split: option.splits)

lemma issued_createAccount:
  assumes "account_ids_issued s"
  shows "account_ids_issued (snd (simulateCreateAccount s d now))"
  unfolding account_ids_issued_def
proof (intro allI ballI)
  fix r a
  let ?s' = "snd (simulateCreateAccount s d now)"
  assume a: "a \<in> set (accountIdsOf ?s' r)"
  have c: "accountCounter ?s' = Suc (accountCounter s)" by (simp add: createAccount_snd)
  show "a \<in> {''sim-acc-mgr-0'', ''sim-acc-jd1-1'', ''sim-acc-jd2-2''} \<or>
        (\<exists>n<accountCounter ?s'. a = simulatedAccountId n)"
  proof (cases "r = Suc (nextRef s)")
    case True
    with a have "a = simulatedAccountId (accountCounter s)"
      by (simp add: accountIdsOf_createAccount)
    then show ?thesis unfolding c by blast
  next
    case False
    with a have "a \<in> set (accountIdsOf s r)"
      by (simp add: accountIdsOf_createAccount split: if_splits)
    with assms have "a \<in> {''sim-acc-mgr-0'', ''sim-acc-jd1-1'', ''sim-acc-jd2-2''} \<or>
        (\<exists>n<accountCounter s. a = simulatedAccountId n)"
      unfolding account_ids_issued_def by blast
    then show ?thesis unfolding c using less_Suc_eq by auto
  qed
qed

lemma fresh_account_id:
  assumes "account_ids_issued s"
  shows "simulatedAccountId (accountCounter s) \<notin> set (accountIdsOf s r)"
proof
  assume "simulatedAccountId (accountCounter s) \<in> set (accountIdsOf s r)"
  with assms have "simulatedAccountId (accountCounter s) \<in>
        {''sim-acc-mgr-0'', ''sim-acc-jd1-1'', ''sim-acc-jd2-2''} \<or>
      (\<exists>n<accountCounter s. simulatedAccountId (accountCounter s) = simulatedAccountId n)"
    unfolding account_ids_issued_def by blast
  then show False by auto
qed

lemma unique_createAccount:
  assumes u: "account_ids_unique s" and i: "account_ids_issued s"
  shows "account_ids_unique (snd (simulateCreateAccount s d now))"
  unfolding account_ids_unique_def
proof (intro conjI allI impI)
  fix r
  from u have "distinct (accountIdsOf s r)" by (simp add: account_ids_unique_def)
  then show "distinct (accountIdsOf (snd (simulateCreateAccount s d now)) r)"
    by (simp add: accountIdsOf_createAccount)
next
  fix r1 r2 :: nat
  assume ne: "r1 \<noteq> r2"
  with u have old: "set (accountIdsOf s r1) \<inter> set (accountIdsOf s r2) = {}"
    by (simp add: account_ids_unique_def)
  from fresh_account_id [OF i] old ne
  show "set (accountIdsOf (snd (simulateCreateAccount s d now)) r1) \<inter>
        set (accountIdsOf (snd (simulateCreateAccount s d now)) r2) = {}"
    by (simp add: accountIdsOf_createAccount)
qed

lemma refs_allocated_createAccount:
  assumes "refs_allocated s"
  shows "refs_allocated (snd (simulateCreateAccount s d now))"
proof -
  have "r < Suc (Suc (nextRef s))"
    if "(k, r) \<in> set (AList.update k1 (nextRef s) (simulatedAccountsStore s)) \<union>
        set (AList.update k2 (Suc (nextRef s))
              (AList.update k3 (Suc (nextRef s)) (simulatedIdentitiesStore s)))"
    for k r k1 k2 k3
  proof -
    from that set_update_subset [of k1 "nextRef s" "simulatedAccountsStore s"]
      set_update_subset [of k2 "Suc (nextRef s)"
        "AList.update k3 (Suc (nextRef s)) (simulatedIdentitiesStore s)"]
      set_update_subset [of k3 "Suc (nextRef s)" "simulatedIdentitiesStore s"]
    have "r = nextRef s \<or> r = Suc (nextRef s) \<or>
        (k, r) \<in> set (simulatedAccountsStore s) \<union> set (simulatedIdentitiesStore s)"
      by auto
    with assms show ?thesis
      unfolding refs_allocated_def by (auto intro: less_SucI)
  qed
  then show ?thesis
    unfolding refs_allocated_def by (auto simp: createAccount_snd)
qed

lemma refs_allocated_getTaskStatus:
  assumes "refs_allocated s"
  shows "refs_allocated (snd (simulateGetTaskStatus s taskId))"
  using assms by (simp add: refs_allocated_def)

lemma refs_allocated_disableAccount:
  assumes "refs_allocated s"
  shows "refs_allocated (snd (simulateDisableAccount s a now))"
proof (cases "scanForAccount (heap s) a (simulatedIdentitiesStore s)")
  case None
  with assms show ?thesis by (simp add: disableAccount_not_found)
next
  case (Some found)
  obtain k r' i where found: "found = (k, r', i)" by (cases found)
  from scanForAccount_Some [OF Some [unfolded found]]
  obtain accs where accs: "accounts (heap s r') = Some accs" by blast
  have "r < Suc (nextRef s)"
    if "(k, r) \<in> set (AList.update k1 (nextRef s) (simulatedAccountsStore s)) \<union>
        set (simulatedIdentitiesStore s)" for k r k1
    using that set_update_subset [of k1 "nextRef s" "simulatedAccountsStore s"] assms
    unfolding refs_allocated_def by (auto intro: less_SucI)
  then show ?thesis
    unfolding refs_allocated_def
    by (auto simp: disableAccount_found [OF Some [unfolded found] accs])
qed

lemma refs_allocated_setLifecycleState:
  assumes "refs_allocated s"
  shows "refs_allocated (snd (simulateSetLifecycleState s iid st now))"
proof (cases "findIdentityById s iid")
  case None
  with assms show ?thesis by (simp add: setLifecycleState_not_found)
next
  case (Some r')
  have "r < Suc (nextRef s)"
    if "(k, r) \<in> set (simulatedAccountsStore s) \<union>
        set (AList.update k1 (nextRef s) (simulatedIdentitiesStore s))" for k r k1
    using that set_update_subset [of k1 "nextRef s" "simulatedIdentitiesStore s"] assms
    unfolding refs_allocated_def by (auto intro: less_SucI)
  then show ?thesis
    unfolding refs_allocated_def
    by (auto simp: setLifecycleState_found [OF Some])
qed

lemma keys_issued_createAccount:
  assumes "identity_keys_issued s"
  shows "identity_keys_issued (snd (simulateCreateAccount s d now))"
  unfolding identity_keys_issued_def
proof
  fix k
  let ?s' = "snd (simulateCreateAccount s d now)"
  assume "k \<in> fst ` set (simulatedIdentitiesStore ?s')"
  then have "k = simulatedIdentityId (identityCounter s) \<or>
      k = simulatedAccountId (accountCounter s) \<or> k \<in> fst ` set (simulatedIdentitiesStore s)"
    by (simp add: createAccount_snd keys_update)
  moreover have c: "identityCounter ?s' = Suc (identityCounter s)"
    "accountCounter ?s' = Suc (accountCounter s)"
    by (simp_all add: createAccount_snd)
  moreover have "(\<exists>n<identityCounter s. k = simulatedIdentityId n) \<or>
        (\<exists>n<accountCounter s. k = simulatedAccountId n) \<or> (\<exists>t. k = setLcsTaskId t)"
    if "k \<in> fst ` set (simulatedIdentitiesStore s)"
    using that assms unfolding identity_keys_issued_def by blast
  ultimately show "(\<exists>n<identityCounter ?s'. k = simulatedIdentityId n) \<or>
        (\<exists>n<accountCounter ?s'. k = simulatedAccountId n) \<or> (\<exists>t. k = setLcsTaskId t)"
    unfolding c using less_Suc_eq by auto
qed

lemma keys_issued_setLifecycleState:
  assumes "identity_keys_issued s"
  shows "identity_keys_issued (snd (simulateSetLifecycleState s iid st now))"
proof (cases "findIdentityById s iid")
  case None
  with assms show ?thesis by (simp add: setLifecycleState_not_found)
next
  case (Some r')
  show ?thesis
    using assms unfolding identity_keys_issued_def
    by (auto simp: setLifecycleState_found [OF Some] keys_update)
qed

lemma task_keys_issued_steps:
  "task_keys_issued s \<Longrightarrow> task_keys_issued (snd (simulateCreateAccount s d now))"
  "task_keys_issued s \<Longrightarrow> task_keys_issued (snd (simulateGetTaskStatus s taskId))"
  "task_keys_issued s \<Longrightarrow> task_keys_issued (snd (simulateSetLifecycleState s iid st now))"
  by (auto simp: task_keys_issued_def createAccount_snd keys_update)

lemma task_keys_issued_disableAccount:
  assumes "task_keys_issued s"
  shows "task_keys_issued (snd (simulateDisableAccount s a now))"
proof (cases "scanForAccount (heap s) a (simulatedIdentitiesStore s)")
  case None
  with assms show ?thesis by (simp add: disableAccount_not_found)
next
  case (Some found)
  obtain k r' i where found: "found = (k, r', i)" by (cases found)
  from scanForAccount_Some [OF Some [unfolded found]]
  obtain accs where accs: "accounts (heap s r') = Some accs" by blast
  show ?thesis
    using assms unfolding task_keys_issued_def
    by (auto simp: disableAccount_found [OF Some [unfolded found] accs] keys_update)
qed

lemma initial_state_invariants:
  "refs_allocated initial_state" "identity_keys_issued initial_state"
  "account_ids_issued initial_state" "account_ids_unique initial_state"
  "task_keys_issued initial_state"
proof -
  show "task_keys_issued initial_state"
    by (simp add: task_keys_issued_def initial_state_def Let_def)
  have ids: "accountIdsOf initial_state r =
      (if r = 0 then [''sim-acc-mgr-0'']
       else if r = 1 then [''sim-acc-jd1-1'', ''sim-acc-jd2-2''] else [])" for r
    by (simp add: accountIdsOf_def initial_state_def Let_def empty_obj_def
        string_of_nat.simps digit_char_def)
  show "refs_allocated initial_state"
    by (simp add: refs_allocated_def initial_state_def Let_def)
  show "identity_keys_issued initial_state"
    unfolding identity_keys_issued_def
    by (auto simp: initial_state_def Let_def)
  show "account_ids_issued initial_state"
    unfolding account_ids_issued_def by (auto simp: ids split: if_splits)
  show "account_ids_unique initial_state"
    unfolding account_ids_unique_def by (auto simp: ids split: if_splits)
qed

lemma reachable_invariants:
  assumes "reachable s"
  shows "refs_allocated s \<and> identity_keys_issued s \<and> account_ids_issued s
    \<and> account_ids_unique s \<and> task_keys_issued s"
  using assms
proof (induction rule: reachable.induct)
  case module_loaded
  show ?case by (simp add: initial_state_invariants)
next
  case (after_createAccount s d now)
  then show ?case
    by (simp add: refs_allocated_createAccount keys_issued_createAccount issued_createAccount
        unique_createAccount task_keys_issued_steps)
next
  case (after_getTaskStatus s taskId)
  then show ?case
    by (auto simp: refs_allocated_getTaskStatus identity_keys_issued_def task_keys_issued_steps
        intro: unique_shrink issued_shrink)
next
  case (after_disableAccount s a now)
  then show ?case
    by (auto simp: refs_allocated_disableAccount identity_keys_issued_def
          task_keys_issued_disableAccount
        intro: unique_shrink [OF _ accountIdsOf_disableAccount]
          issued_shrink [OF _ accountIdsOf_disableAccount])
next
  case (after_setLifecycleState s iid st now)
  then show ?case
    by (auto simp: refs_allocated_setLifecycleState keys_issued_setLifecycleState
          task_keys_issued_steps
        intro: unique_shrink [OF _ accountIdsOf_setLifecycleState]
          issued_shrink [OF _ accountIdsOf_setLifecycleState])
qed

subsection \<open>The inherited members in the reachable states\<close>

lemma member_refs:
  "map_of prototypeMembers k = Some r \<Longrightarrow> 2 \<le> r \<and> r < 14"
  by (auto simp: prototypeMembers_def split: if_splits)

lemma inherited_refs:
  assumes "inherited s k = Some r"
  shows "2 \<le> r \<and> r < 15"
proof (cases "map_of prototypeMembers k")
  case None
  with assms show ?thesis
    by (simp add: inherited_def primitiveRef_def split: if_splits)
next
  case (Some r')
  with assms have "r' = r" by (simp add: inherited_def)
  with member_refs [OF Some] show ?thesis by simp
qed

lemma readObject_own:
  "lifecycleState (heap s r) \<noteq> None \<Longrightarrow> readObject s r = heap s r"
  by (auto simp: readObject_def split: option.split)

text \<open>What the two lookups find: a reference held by a store, or an inherited member.\<close>

lemma findIdentityById_cases:
  assumes "findIdentityById s iid = Some r"
  shows "(\<exists>k. (k, r) \<in> set (simulatedIdentitiesStore s)) \<or> inherited s iid = Some r"
proof (cases "map_of (simulatedIdentitiesStore s) iid")
  case (Some r')
  with assms have "r' = r" by (simp add: findIdentityById_def)
  with Some show ?thesis by (auto dest: map_of_SomeD)
next
  case None
  show ?thesis
  proof (cases "inherited s iid")
    case (Some r')
    with None assms show ?thesis by (simp add: findIdentityById_def getProperty_def)
  next
    case inh: None
    with None assms obtain p where
      "find (\<lambda>(key, r). obj_id (heap s r) = Some iid) (simulatedIdentitiesStore s) = Some p"
      "snd p = r"
      by (auto simp: findIdentityById_def getProperty_def)
    then have "p \<in> set (simulatedIdentitiesStore s)"
      by (metis find_Some_iff nth_mem)
    with \<open>snd p = r\<close> show ?thesis by (cases p) auto
  qed
qed

lemma taskDetailsOf_cases:
  assumes "taskDetailsOf s taskId = Some r"
  shows "(\<exists>k. (k, r) \<in> set (simulatedAccountsStore s) \<union> set (simulatedIdentitiesStore s))
     \<or> inherited s taskId = Some r"
  using assms
  by (auto simp: taskDetailsOf_def getProperty_def split: option.splits dest: map_of_SomeD)

text \<open>The members have no status, so a status query leaves them as they are.\<close>

lemma kept_status:
  assumes k: "members_kept s" and r: "2 \<le> r" "r < 15"
  shows "advanceStatus (heap s r) = heap s r"
proof (cases "r = 14")
  case True
  with k have "heap s r = empty_obj" by (simp add: members_kept_def primitiveRef_def)
  then show ?thesis by (simp add: advanceStatus_def empty_obj_def)
next
  case False
  with k r have "(heap s r)\<lparr> lifecycleState := None \<rparr> = builtins r"
    by (simp add: members_kept_def)
  then have "status ((heap s r)\<lparr> lifecycleState := None \<rparr>) = None" by simp
  then show ?thesis by (simp add: advanceStatus_def)
qed

lemma kept_createAccount:
  assumes "members_kept s"
  shows "members_kept (snd (simulateCreateAccount s d now))"
proof -
  have "r < 2 \<or> 15 \<le> r"
    if "(k, r) \<in> set (AList.update k1 (nextRef s) (simulatedAccountsStore s)) \<union>
        set (AList.update k2 (Suc (nextRef s))
              (AList.update k3 (Suc (nextRef s)) (simulatedIdentitiesStore s)))"
    for k r k1 k2 k3
  proof -
    from that set_update_subset [of k1 "nextRef s" "simulatedAccountsStore s"]
      set_update_subset [of k2 "Suc (nextRef s)"
        "AList.update k3 (Suc (nextRef s)) (simulatedIdentitiesStore s)"]
      set_update_subset [of k3 "Suc (nextRef s)" "simulatedIdentitiesStore s"]
    have "r = nextRef s \<or> r = Suc (nextRef s) \<or>
        (k, r) \<in> set (simulatedAccountsStore s) \<union> set (simulatedIdentitiesStore s)"
      by auto
    with assms show ?thesis
      unfolding members_kept_def by auto
  qed
  with assms show ?thesis
    unfolding members_kept_def by (auto simp: createAccount_snd primitiveRef_def)
qed

lemma kept_getTaskStatus:
  assumes u: "members_kept s"
  shows "members_kept (snd (simulateGetTaskStatus s taskId))"
proof (cases "taskDetailsOf s taskId")
  case None
  with u show ?thesis by (simp add: getTaskStatus_state)
next
  case (Some r)
  show ?thesis
  proof (cases "2 \<le> r \<and> r < 15")
    case True
    with kept_status [OF u] have "advanceStatus (heap s r) = heap s r" by simp
    then have "snd (simulateGetTaskStatus s taskId) = s"
      by (simp add: getTaskStatus_state Some)
    with u show ?thesis by simp
  next
    case False
    with u show ?thesis
      unfolding members_kept_def
      by (auto simp: getTaskStatus_state Some primitiveRef_def)
  qed
qed

lemma kept_disableAccount:
  assumes u: "members_kept s"
  shows "members_kept (snd (simulateDisableAccount s a now))"
proof (cases "scanForAccount (heap s) a (simulatedIdentitiesStore s)")
  case None
  with u show ?thesis by (simp add: disableAccount_not_found)
next
  case (Some found)
  obtain k r' i where found: "found = (k, r', i)" by (cases found)
  from scanForAccount_Some [OF Some [unfolded found]]
  obtain accs where accs: "accounts (heap s r') = Some accs"
    and mem: "(k, r') \<in> set (simulatedIdentitiesStore s)" by blast
  note eq = disableAccount_found [OF Some [unfolded found] accs, of now]
  let ?s' = "snd (simulateDisableAccount s a now)"
  from mem u have r': "r' < 2 \<or> 15 \<le> r'"
    unfolding members_kept_def by blast
  from u have n: "15 \<le> nextRef s" by (simp add: members_kept_def)
  have h: "heap ?s' r = heap s r" if "r \<noteq> nextRef s" "r \<noteq> r'" for r
    using that by (simp add: eq)
  have "(heap ?s' r)\<lparr> lifecycleState := None \<rparr> = builtins r" if "2 \<le> r" "r < 14" for r
  proof -
    from that n r' have "r \<noteq> nextRef s" "r \<noteq> r'" by auto
    from h [OF this] that u show ?thesis by (simp add: members_kept_def)
  qed
  moreover have "heap ?s' primitiveRef = empty_obj"
  proof -
    from n r' have "primitiveRef \<noteq> nextRef s" "primitiveRef \<noteq> r'"
      by (auto simp: primitiveRef_def)
    from h [OF this] u show ?thesis by (simp add: members_kept_def)
  qed
  moreover have "15 \<le> nextRef ?s'" using n by (simp add: eq)
  moreover have "r < 2 \<or> 15 \<le> r"
    if "(k, r) \<in> set (simulatedAccountsStore ?s') \<union> set (simulatedIdentitiesStore ?s')" for k r
  proof -
    from that have "(k, r) \<in> set (AList.update (disableAccountTaskId now) (nextRef s)
        (simulatedAccountsStore s)) \<union> set (simulatedIdentitiesStore s)"
      by (simp add: eq)
    with set_update_subset [of "disableAccountTaskId now" "nextRef s" "simulatedAccountsStore s"]
    have "r = nextRef s \<or> (k, r) \<in> set (simulatedAccountsStore s) \<union> set (simulatedIdentitiesStore s)"
      by auto
    with u n show ?thesis unfolding members_kept_def by auto
  qed
  ultimately show ?thesis
    unfolding members_kept_def by blast
qed

lemma kept_write:
  fixes ob b :: jsobj
  assumes "ob\<lparr> lifecycleState := None \<rparr> = b" and "accounts b = None"
  shows "(ob\<lparr> lifecycleState := Some st \<rparr>)\<lparr> accounts :=
            (if t then map_option f (accounts ob) else accounts ob) \<rparr>\<lparr> lifecycleState := None \<rparr> = b"
proof -
  from assms have "accounts ob = None" by (cases ob) auto
  with assms(1) show ?thesis by (cases ob) auto
qed

lemma kept_setLifecycleState:
  assumes u: "members_kept s"
  shows "members_kept (snd (simulateSetLifecycleState s iid st now))"
proof (cases "findIdentityById s iid")
  case None
  with u show ?thesis by (simp add: setLifecycleState_not_found)
next
  case (Some r')
  note eq = setLifecycleState_found [OF Some, of st now]
  let ?ob = "(if r' = primitiveRef then heap s r'
              else (heap s r')\<lparr> lifecycleState := Some st \<rparr>)\<lparr>
               accounts := (if st = ''terminated''
                  then map_option (map (\<lambda>acc. acc\<lparr> acc_status := disabled \<rparr>)) (accounts (heap s r'))
                  else accounts (heap s r')) \<rparr>"
  have stores: "r < 2 \<or> 15 \<le> r"
    if "(k, r) \<in> set (simulatedAccountsStore s) \<union>
        set (AList.update k1 (nextRef s) (simulatedIdentitiesStore s))" for k r k1
    using that set_update_subset [of k1 "nextRef s" "simulatedIdentitiesStore s"] u
    unfolding members_kept_def by auto
  from u have n: "15 \<le> nextRef s" by (simp add: members_kept_def)
  have prim: "r' = primitiveRef \<Longrightarrow> ?ob = empty_obj"
    using u by (simp add: members_kept_def empty_obj_def)
  have memb: "?ob\<lparr> lifecycleState := None \<rparr> = builtins r'" if "2 \<le> r'" "r' < 14"
  proof -
    from that u have b: "(heap s r')\<lparr> lifecycleState := None \<rparr> = builtins r'"
      by (simp add: members_kept_def)
    from that have "r' \<noteq> primitiveRef" by (simp add: primitiveRef_def)
    with kept_write [OF b] show ?thesis by simp
  qed
  have h: "heap (snd (simulateSetLifecycleState s iid st now)) r =
      (if r = nextRef s then heap (snd (simulateSetLifecycleState s iid st now)) (nextRef s)
       else if r = r' then ?ob else heap s r)" for r
    by (simp add: eq)
  have "(heap (snd (simulateSetLifecycleState s iid st now)) r)\<lparr> lifecycleState := None \<rparr>
      = builtins r" if "2 \<le> r" "r < 14" for r
  proof (cases "r = r'")
    case True
    with that n memb show ?thesis by (simp add: h)
  next
    case False
    with that n u show ?thesis by (simp add: h members_kept_def)
  qed
  moreover have "heap (snd (simulateSetLifecycleState s iid st now)) primitiveRef = empty_obj"
  proof (cases "r' = primitiveRef")
    case True
    with n prim show ?thesis by (simp add: h primitiveRef_def)
  next
    case False
    with n u show ?thesis by (simp add: h members_kept_def primitiveRef_def)
  qed
  moreover have "15 \<le> nextRef (snd (simulateSetLifecycleState s iid st now))"
    using n by (simp add: eq)
  moreover have "r < 2 \<or> 15 \<le> r"
    if "(k, r) \<in> set (simulatedAccountsStore (snd (simulateSetLifecycleState s iid st now))) \<union>
        set (simulatedIdentitiesStore (snd (simulateSetLifecycleState s iid st now)))" for k r
    using that stores by (simp add: eq)
  ultimately show ?thesis
    unfolding members_kept_def by blast
qed

lemma reachable_kept:
  assumes "reachable s"
  shows "members_kept s"
  using assms
proof (induction rule: reachable.induct)
  case module_loaded
  have "(heap initial_state r)\<lparr> lifecycleState := None \<rparr> = builtins r" if "2 \<le> r" "r < 14" for r
  proof -
    from that have "heap initial_state r = builtins r"
      by (simp add: initial_state_def Let_def)
    moreover have "(builtins r)\<lparr> lifecycleState := None \<rparr> = builtins r"
      by (cases "builtins r") (use builtins_fields(4) [of r] in auto)
    ultimately show ?thesis by simp
  qed
  moreover have "heap initial_state primitiveRef = empty_obj"
    by (simp add: initial_state_def Let_def primitiveRef_def builtins_def prototypeMembers_def)
  ultimately show ?case
    by (auto simp: members_kept_def initial_state_def Let_def)
qed (simp_all add: kept_createAccount kept_getTaskStatus kept_disableAccount
       kept_setLifecycleState)

text \<open>In a reachable state a lookup finds an object that exists.\<close>

lemma reachable_findIdentityById:
  assumes r: "reachable s" and f: "findIdentityById s iid = Some r"
  shows "r < nextRef s"
proof -
  from reachable_kept [OF r] have u: "members_kept s" .
  from reachable_invariants [OF r] have ra: "refs_allocated s" by simp
  from findIdentityById_cases [OF f]
  show ?thesis
  proof
    assume "\<exists>k. (k, r) \<in> set (simulatedIdentitiesStore s)"
    with ra show ?thesis unfolding refs_allocated_def by blast
  next
    assume "inherited s iid = Some r"
    from inherited_refs [OF this] u show ?thesis
      unfolding members_kept_def by auto
  qed
qed

text \<open>The objects that have an email keep a lifecycle state of their own.\<close>

lemma have_state_createAccount:
  assumes "identities_have_state s"
  shows "identities_have_state (snd (simulateCreateAccount s d now))"
  using assms
  unfolding identities_have_state_def
  by (auto simp: createAccount_snd newIdentity_def Let_def empty_obj_def)

lemma have_state_getTaskStatus:
  assumes "identities_have_state s"
  shows "identities_have_state (snd (simulateGetTaskStatus s taskId))"
  using assms
  unfolding identities_have_state_def
  by (auto simp: getTaskStatus_state split: option.split)

lemma have_state_disableAccount:
  assumes "identities_have_state s"
  shows "identities_have_state (snd (simulateDisableAccount s a now))"
proof (cases "scanForAccount (heap s) a (simulatedIdentitiesStore s)")
  case None
  with assms show ?thesis by (simp add: disableAccount_not_found)
next
  case (Some found)
  obtain k r' i where found: "found = (k, r', i)" by (cases found)
  from scanForAccount_Some [OF Some [unfolded found]]
  obtain accs where accs: "accounts (heap s r') = Some accs" by blast
  from assms show ?thesis
    unfolding identities_have_state_def
    by (auto simp: disableAccount_found [OF Some [unfolded found] accs] empty_obj_def)
qed

lemma have_state_setLifecycleState:
  assumes "identities_have_state s"
  shows "identities_have_state (snd (simulateSetLifecycleState s iid st now))"
proof (cases "findIdentityById s iid")
  case None
  with assms show ?thesis by (simp add: setLifecycleState_not_found)
next
  case (Some r')
  from assms show ?thesis
    unfolding identities_have_state_def
    by (auto simp: setLifecycleState_found [OF Some] empty_obj_def)
qed

lemma reachable_have_state:
  assumes "reachable s"
  shows "identities_have_state s"
  using assms
proof (induction rule: reachable.induct)
  case module_loaded
  show ?case
    by (auto simp: identities_have_state_def initial_state_def Let_def empty_obj_def)
qed (simp_all add: have_state_createAccount have_state_getTaskStatus have_state_disableAccount
       have_state_setLifecycleState)

subsection \<open>Lifecycle changes\<close>

text \<open>
  When \<open>findIdentityById\<close> finds nothing: the argument is no key of the identities store,
  no name of an inherited member (nor \<^verbatim>\<open>lifecycleState\<close> when \<^verbatim>\<open>Object.prototype\<close> has been
  given one) and no id of a stored object.
\<close>

lemma findIdentityById_None_iff:
  "findIdentityById s iid = None \<longleftrightarrow>
     iid \<notin> fst ` set (simulatedIdentitiesStore s) \<and> iid \<notin> set Object_prototype
     \<and> \<not> (iid = ''lifecycleState'' \<and> truthy (lifecycleState (heap s prototypeRef)))
     \<and> (\<forall>k r. (k, r) \<in> set (simulatedIdentitiesStore s) \<longrightarrow> obj_id (heap s r) \<noteq> Some iid)"
proof -
  have own: "map_of (simulatedIdentitiesStore s) iid = None \<longleftrightarrow>
      iid \<notin> fst ` set (simulatedIdentitiesStore s)"
    by (rule map_of_eq_None_iff)
  have mem: "map_of prototypeMembers iid = None \<longleftrightarrow> iid \<notin> set Object_prototype"
    by (simp add: Object_prototype_def map_of_eq_None_iff)
  have inh: "inherited s iid = None \<longleftrightarrow>
      map_of prototypeMembers iid = None
      \<and> \<not> (iid = ''lifecycleState'' \<and> truthy (lifecycleState (heap s prototypeRef)))"
    by (simp add: inherited_def split: option.split)
  have scan: "find (\<lambda>(key, r). obj_id (heap s r) = Some iid) (simulatedIdentitiesStore s) = None
      \<longleftrightarrow> (\<forall>k r. (k, r) \<in> set (simulatedIdentitiesStore s) \<longrightarrow> obj_id (heap s r) \<noteq> Some iid)"
    by (auto simp: find_None_iff)
  have "findIdentityById s iid = None \<longleftrightarrow>
      map_of (simulatedIdentitiesStore s) iid = None \<and> inherited s iid = None
      \<and> find (\<lambda>(key, r). obj_id (heap s r) = Some iid) (simulatedIdentitiesStore s) = None"
    by (auto simp: findIdentityById_def getProperty_def split: option.splits)
  then show ?thesis
    unfolding own inh mem scan by blast
qed

text \<open>
  C7, as the code has it. \<open>simulateSetLifecycleState\<close> in a reachable state, for any
  argument. It answers \<open>404\<close> and leaves the state unchanged (so no task is created)
  exactly when \<open>findIdentityById\<close> finds nothing: the argument is no key of the identities
  store (the keys are identity ids, account ids and lifecycle task ids), no name of a
  member that every object inherits, and no id of a stored object (and not
  \<^verbatim>\<open>lifecycleState\<close>, once an earlier call with the argument \<^verbatim>\<open>__proto__\<close> has given
  \<^verbatim>\<open>Object.prototype\<close> a lifecycle state, which the two stores then inherit as a string).
  If something is found at \<open>r\<close>, the answer is \<open>202\<close> with the lifecycle task id; unless
  it is that string, it has the new lifecycle state; for the state \<open>terminated\<close> its
  accounts are the old ones with every status \<open>disabled\<close>, and for any other state they
  are the old ones; and the task id denotes, for the status query too, a new object with
  status \<open>QUEUED\<close> that names the argument.
\<close>

theorem setLifecycleState_effect:
  assumes "reachable s"
  shows "(findIdentityById s iid = None \<longleftrightarrow>
           iid \<notin> fst ` set (simulatedIdentitiesStore s) \<and> iid \<notin> set Object_prototype
           \<and> \<not> (iid = ''lifecycleState'' \<and> truthy (lifecycleState (heap s prototypeRef)))
           \<and> (\<forall>k r. (k, r) \<in> set (simulatedIdentitiesStore s) \<longrightarrow>
                  obj_id (heap s r) \<noteq> Some iid))
     \<and> (findIdentityById s iid = None \<longrightarrow>
           simulateSetLifecycleState s iid st now =
             ((404, Message (''Identity '' @ iid @
                  '' not found for lifecycle state change (simulated).'')), s))
     \<and> (\<forall>r. findIdentityById s iid = Some r \<longrightarrow>
           fst (simulateSetLifecycleState s iid st now) =
             (202, Activity (setLcsTaskId now) ''IDENTITY_LIFECYCLE_UPDATE'' QUEUED
                (''Lifecycle state change for '' @ js_str (name (heap s r)) @ '' to '' @ st))
         \<and> (r \<noteq> primitiveRef \<longrightarrow>
              lifecycleState (heap (snd (simulateSetLifecycleState s iid st now)) r) = Some st)
         \<and> accounts (heap (snd (simulateSetLifecycleState s iid st now)) r) =
             (if st = ''terminated''
              then map_option (map (\<lambda>acc. acc\<lparr> acc_status := disabled \<rparr>)) (accounts (heap s r))
              else accounts (heap s r))
         \<and> taskDetailsOf (snd (simulateSetLifecycleState s iid st now)) (setLcsTaskId now)
             = Some (nextRef s)
         \<and> status (heap (snd (simulateSetLifecycleState s iid st now)) (nextRef s)) = Some QUEUED
         \<and> identityId (heap (snd (simulateSetLifecycleState s iid st now)) (nextRef s)) = Some iid)"
proof (intro conjI allI impI)
  show "findIdentityById s iid = None \<longleftrightarrow>
     iid \<notin> fst ` set (simulatedIdentitiesStore s) \<and> iid \<notin> set Object_prototype
     \<and> \<not> (iid = ''lifecycleState'' \<and> truthy (lifecycleState (heap s prototypeRef)))
     \<and> (\<forall>k r. (k, r) \<in> set (simulatedIdentitiesStore s) \<longrightarrow> obj_id (heap s r) \<noteq> Some iid)"
    by (rule findIdentityById_None_iff)
next
  assume "findIdentityById s iid = None"
  then show "simulateSetLifecycleState s iid st now =
             ((404, Message (''Identity '' @ iid @
                  '' not found for lifecycle state change (simulated).'')), s)"
    by (rule setLifecycleState_not_found)
next
  fix r
  assume f: "findIdentityById s iid = Some r"
  note eq = setLifecycleState_found [OF f, of st now]
  from reachable_findIdentityById [OF assms f] have ne: "r \<noteq> nextRef s" by simp
  from reachable_invariants [OF assms] have tk: "task_keys_issued s" by simp
  have no_task: "map_of (simulatedAccountsStore s) (setLcsTaskId now) = None"
  proof (rule ccontr)
    assume "map_of (simulatedAccountsStore s) (setLcsTaskId now) \<noteq> None"
    then have "setLcsTaskId now \<in> fst ` set (simulatedAccountsStore s)"
      by (auto dest: map_of_SomeD intro: rev_image_eqI)
    with tk have "(\<exists>t. setLcsTaskId now = accountCreationTaskId t) \<or>
        (\<exists>t. setLcsTaskId now = disableAccountTaskId t)"
      unfolding task_keys_issued_def by blast
    then show False by (auto simp: key_defs)
  qed
  show "fst (simulateSetLifecycleState s iid st now) =
             (202, Activity (setLcsTaskId now) ''IDENTITY_LIFECYCLE_UPDATE'' QUEUED
                (''Lifecycle state change for '' @ js_str (name (heap s r)) @ '' to '' @ st))"
    by (simp add: eq)
  show "lifecycleState (heap (snd (simulateSetLifecycleState s iid st now)) r) = Some st"
    if "r \<noteq> primitiveRef"
    using ne that by (simp add: eq)
  show "accounts (heap (snd (simulateSetLifecycleState s iid st now)) r) =
             (if st = ''terminated''
              then map_option (map (\<lambda>acc. acc\<lparr> acc_status := disabled \<rparr>)) (accounts (heap s r))
              else accounts (heap s r))"
    using ne by (simp add: eq)
  show "taskDetailsOf (snd (simulateSetLifecycleState s iid st now)) (setLcsTaskId now)
             = Some (nextRef s)"
    by (simp add: eq taskDetailsOf_def no_task update_conv')
  show "status (heap (snd (simulateSetLifecycleState s iid st now)) (nextRef s)) = Some QUEUED"
    by (simp add: eq empty_obj_def)
  show "identityId (heap (snd (simulateSetLifecycleState s iid st now)) (nextRef s)) = Some iid"
    by (simp add: eq empty_obj_def)
qed

lemma initial_state_lookups:
  "findIdentityById initial_state ''no-such-identity'' = None"
  "findIdentityById initial_state ''simulated-identityId-1'' = Some 1"
  "findIdentityById initial_state ''constructor'' = Some 2"
  "nextRef initial_state = 15"
  "simulatedIdentitiesStore initial_state =
     [(''simulated-identityId-0'', 0), (''simulated-identityId-1'', 1)]"
  "simulatedAccountsStore initial_state = []"
  by (simp_all add: findIdentityById_def lookup_defs initial_state_def Let_def key_defs
      string_of_nat.simps digit_char_def empty_obj_def)

theorem setLifecycleState_effect_witness:
  "simulateSetLifecycleState initial_state ''no-such-identity'' ''terminated'' 2 =
     ((404, Message ''Identity no-such-identity not found for lifecycle state change (simulated).''),
      initial_state)
   \<and> lifecycleState (heap (snd (simulateSetLifecycleState initial_state
         ''simulated-identityId-1'' ''terminated'' 2)) 1) = Some ''terminated''
   \<and> accounts (heap (snd (simulateSetLifecycleState initial_state
         ''simulated-identityId-1'' ''terminated'' 2)) 1) =
       Some [\<lparr> acc_id = ''sim-acc-jd1-1'', nativeIdentity = ''johndoe'', sourceId = ''AD'',
               sourceName = ''Active Directory'', acc_status = disabled \<rparr>,
             \<lparr> acc_id = ''sim-acc-jd2-2'', nativeIdentity = ''jdoe'', sourceId = ''Salesforce'',
               sourceName = ''Salesforce CRM'', acc_status = disabled \<rparr>]
   \<and> taskDetailsOf (snd (simulateSetLifecycleState initial_state
         ''simulated-identityId-1'' ''terminated'' 2)) ''set-lcs-task-2'' = Some 15
   \<and> status (heap (snd (simulateSetLifecycleState initial_state
         ''simulated-identityId-1'' ''terminated'' 2)) 15) = Some QUEUED
   \<and> fst (simulateSetLifecycleState initial_state ''constructor'' ''terminated'' 2) =
       (202, Activity ''set-lcs-task-2'' ''IDENTITY_LIFECYCLE_UPDATE'' QUEUED
          ''Lifecycle state change for Object to terminated'')
   \<and> taskDetailsOf (snd (simulateSetLifecycleState initial_state
         ''constructor'' ''terminated'' 2)) ''set-lcs-task-2'' = Some 15"
proof -
  have c: "name (heap initial_state 2) = Some ''Object''"
    by (simp add: initial_state_def Let_def builtins_def prototypeMembers_def memberObject_def
        empty_obj_def)
  have a: "accounts (heap initial_state (Suc 0)) =
       Some [\<lparr> acc_id = ''sim-acc-jd1-1'', nativeIdentity = ''johndoe'', sourceId = ''AD'',
               sourceName = ''Active Directory'', acc_status = enabled \<rparr>,
             \<lparr> acc_id = ''sim-acc-jd2-2'', nativeIdentity = ''jdoe'', sourceId = ''Salesforce'',
               sourceName = ''Salesforce CRM'', acc_status = enabled \<rparr>]"
    by (simp add: initial_state_def Let_def empty_obj_def string_of_nat.simps digit_char_def)
  have n: "setLcsTaskId 2 = ''set-lcs-task-2''"
    by (simp add: key_defs string_of_nat.simps digit_char_def)
  from setLifecycleState_effect [OF module_loaded, of "''no-such-identity''" "''terminated''" 2]
    setLifecycleState_effect [OF module_loaded, of "''simulated-identityId-1''" "''terminated''" 2]
    setLifecycleState_effect [OF module_loaded, of "''constructor''" "''terminated''" 2]
  show ?thesis
    by (simp add: initial_state_lookups a c n js_str_def primitiveRef_def)
qed

text \<open>
  The claim C7 as the specification states it fails for an argument that is no identity
  and is found all the same. In the fresh module \<^verbatim>\<open>constructor\<close> is no key of the store
  and no id of a stored object; the lookup answers with the inherited member, the
  operation answers \<open>202\<close>, writes the lifecycle state to that object and stores a task.
  And the id of a lifecycle task is a key of the identities store: a second call with the
  task id of the first is answered \<open>202\<close> as well.
\<close>

theorem setLifecycleState_finds_what_is_no_identity:
  "map fst (simulatedIdentitiesStore initial_state) =
     [''simulated-identityId-0'', ''simulated-identityId-1'']
   \<and> map (\<lambda>(k, r). obj_id (heap initial_state r)) (simulatedIdentitiesStore initial_state) =
     [Some ''simulated-identityId-0'', Some ''simulated-identityId-1'']
   \<and> fst (simulateSetLifecycleState initial_state ''constructor'' ''terminated'' 2) =
       (202, Activity ''set-lcs-task-2'' ''IDENTITY_LIFECYCLE_UPDATE'' QUEUED
          ''Lifecycle state change for Object to terminated'')
   \<and> lifecycleState (heap (snd (simulateSetLifecycleState initial_state
         ''constructor'' ''terminated'' 2)) 2) = Some ''terminated''
   \<and> map_of (simulatedIdentitiesStore (snd (simulateSetLifecycleState initial_state
         ''constructor'' ''terminated'' 2))) ''set-lcs-task-2'' = Some 15
   \<and> fst (simulateSetLifecycleState
         (snd (simulateSetLifecycleState initial_state ''simulated-identityId-1'' ''active'' 2))
         ''set-lcs-task-2'' ''terminated'' 3) =
       (202, Activity ''set-lcs-task-3'' ''IDENTITY_LIFECYCLE_UPDATE'' QUEUED
          ''Lifecycle state change for Set lifecycle state to active for John Doe User to terminated'')"
proof -
  have n: "setLcsTaskId 2 = ''set-lcs-task-2''" "setLcsTaskId 3 = ''set-lcs-task-3''"
    by (simp_all add: key_defs string_of_nat.simps digit_char_def)
  have ids: "obj_id (heap initial_state 0) = Some ''simulated-identityId-0''"
    "obj_id (heap initial_state (Suc 0)) = Some ''simulated-identityId-1''"
    by (simp_all add: initial_state_def Let_def key_defs string_of_nat.simps digit_char_def
        empty_obj_def)
  have c: "name (heap initial_state 2) = Some ''Object''"
    by (simp add: initial_state_def Let_def builtins_def prototypeMembers_def memberObject_def
        empty_obj_def)
  note eq1 = setLifecycleState_found [OF initial_state_lookups(3), of "''terminated''" 2]
  let ?s1 = "snd (simulateSetLifecycleState initial_state ''simulated-identityId-1'' ''active'' 2)"
  note eq2 = setLifecycleState_found [OF initial_state_lookups(2), of "''active''" 2]
  have u: "name (heap initial_state (Suc 0)) = Some ''John Doe User''"
    by (simp add: initial_state_def Let_def empty_obj_def)
  have f: "findIdentityById ?s1 ''set-lcs-task-2'' = Some 15"
    by (simp add: eq2 findIdentityById_def getProperty_def initial_state_lookups n update_conv')
  have t: "name (heap ?s1 15) =
      Some ''Set lifecycle state to active for John Doe User''"
    by (simp add: eq2 initial_state_lookups u js_str_def empty_obj_def)
  note eq3 = setLifecycleState_found [OF f, of "''terminated''" 3]
  show ?thesis
    by (simp add: ids eq1 eq3 t c n initial_state_lookups js_str_def primitiveRef_def
        update_conv')
qed

subsection \<open>Disabling an account\<close>

lemma mem_accountIdsOf:
  "a \<in> set (accountIdsOf s r) \<longleftrightarrow>
     (\<exists>accs. accounts (heap s r) = Some accs \<and> a \<in> acc_id ` set accs)"
  by (cases "accounts (heap s r)") (simp_all add: accountIdsOf_def)

lemma scanForAccount_None_ids:
  "scanForAccount (heap s) a (simulatedIdentitiesStore s) = None \<longleftrightarrow>
     (\<forall>k r. (k, r) \<in> set (simulatedIdentitiesStore s) \<longrightarrow> a \<notin> set (accountIdsOf s r))"
  unfolding scanForAccount_None mem_accountIdsOf by auto

lemma distinct_map_eq:
  assumes "distinct (map f xs)" and "x \<in> set xs" and "y \<in> set xs" and "f x = f y"
  shows "x = y"
  using assms by (auto simp: distinct_map dest: inj_onD)

lemma views_agree:
  assumes u: "account_ids_unique s"
    and 1: "accounts (heap s r1) = Some accs1" "acc1 \<in> set accs1"
    and 2: "accounts (heap s r2) = Some accs2" "acc2 \<in> set accs2"
    and eq: "acc_id acc1 = acc_id acc2"
  shows "r1 = r2 \<and> acc1 = acc2"
proof -
  have m1: "acc_id acc1 \<in> set (accountIdsOf s r1)"
    using 1 by (auto simp: mem_accountIdsOf)
  have m2: "acc_id acc1 \<in> set (accountIdsOf s r2)"
    using 2 eq by (auto simp: mem_accountIdsOf)
  have r: "r1 = r2"
  proof (rule ccontr)
    assume "r1 \<noteq> r2"
    with u have "set (accountIdsOf s r1) \<inter> set (accountIdsOf s r2) = {}"
      by (simp add: account_ids_unique_def)
    with m1 m2 show False by blast
  qed
  with 1 2 have same: "accs2 = accs1" by simp
  from u have "distinct (accountIdsOf s r1)" by (simp add: account_ids_unique_def)
  with 1 have "distinct (map acc_id accs1)" by (simp add: accountIdsOf_def)
  from distinct_map_eq [OF this 1(2) 2(2) [unfolded same] eq] r show ?thesis by simp
qed

text \<open>
  C6. \<open>simulateDisableAccount\<close> in a reachable state. If no object of the identities
  store lists an account with the given id, the answer is \<open>404\<close> and the state is
  unchanged. If one does, the answer is \<open>202\<close>, the store still lists the account, every
  account with that id that can be reached from the store is \<open>disabled\<close>, and a
  \<open>QUEUED\<close> task for the account is stored under the returned task id. The account in
  \<^verbatim>\<open>targetAccount\<close> and the one in the \<^verbatim>\<open>accounts\<close> array of the identity are one object,
  reached under both keys of the identity: in every reachable state, two accounts with the
  same id found through the store have the same status.
\<close>

theorem disableAccount_effect:
  assumes "reachable s"
  shows "((\<forall>k r. (k, r) \<in> set (simulatedIdentitiesStore s) \<longrightarrow> a \<notin> set (accountIdsOf s r)) \<longrightarrow>
            simulateDisableAccount s a now =
              ((404, Message (''Account '' @ a @ '' not found for disabling (simulated).'')), s))
     \<and> ((\<exists>k r. (k, r) \<in> set (simulatedIdentitiesStore s) \<and> a \<in> set (accountIdsOf s r)) \<longrightarrow>
            fst (simulateDisableAccount s a now) =
              (202, Activity (disableAccountTaskId now) ''ACCOUNT_ACTIVITY'' QUEUED
                 (''Disable account '' @ a))
          \<and> (\<exists>k r. (k, r) \<in> set (simulatedIdentitiesStore (snd (simulateDisableAccount s a now)))
                \<and> a \<in> set (accountIdsOf (snd (simulateDisableAccount s a now)) r))
          \<and> (\<forall>k r accs acc.
                (k, r) \<in> set (simulatedIdentitiesStore (snd (simulateDisableAccount s a now))) \<longrightarrow>
                accounts (heap (snd (simulateDisableAccount s a now)) r) = Some accs \<longrightarrow>
                acc \<in> set accs \<longrightarrow> acc_id acc = a \<longrightarrow> acc_status acc = disabled)
          \<and> taskDetailsOf (snd (simulateDisableAccount s a now)) (disableAccountTaskId now)
                = Some (nextRef s)
          \<and> status (heap (snd (simulateDisableAccount s a now)) (nextRef s)) = Some QUEUED
          \<and> accountId (heap (snd (simulateDisableAccount s a now)) (nextRef s)) = Some a)
     \<and> (\<forall>k1 r1 k2 r2 accs1 accs2 acc1 acc2.
            (k1, r1) \<in> set (simulatedIdentitiesStore s) \<longrightarrow>
            (k2, r2) \<in> set (simulatedIdentitiesStore s) \<longrightarrow>
            accounts (heap s r1) = Some accs1 \<longrightarrow> accounts (heap s r2) = Some accs2 \<longrightarrow>
            acc1 \<in> set accs1 \<longrightarrow> acc2 \<in> set accs2 \<longrightarrow> acc_id acc1 = acc_id acc2 \<longrightarrow>
            acc_status acc1 = acc_status acc2)"
proof (intro conjI impI)
  assume "\<forall>k r. (k, r) \<in> set (simulatedIdentitiesStore s) \<longrightarrow> a \<notin> set (accountIdsOf s r)"
  then have "scanForAccount (heap s) a (simulatedIdentitiesStore s) = None"
    by (simp add: scanForAccount_None_ids)
  then show "simulateDisableAccount s a now =
      ((404, Message (''Account '' @ a @ '' not found for disabling (simulated).'')), s)"
    by (rule disableAccount_not_found)
next
  from reachable_invariants [OF assms] have u: "account_ids_unique s" by simp
  show "\<forall>k1 r1 k2 r2 accs1 accs2 acc1 acc2.
            (k1, r1) \<in> set (simulatedIdentitiesStore s) \<longrightarrow>
            (k2, r2) \<in> set (simulatedIdentitiesStore s) \<longrightarrow>
            accounts (heap s r1) = Some accs1 \<longrightarrow> accounts (heap s r2) = Some accs2 \<longrightarrow>
            acc1 \<in> set accs1 \<longrightarrow> acc2 \<in> set accs2 \<longrightarrow> acc_id acc1 = acc_id acc2 \<longrightarrow>
            acc_status acc1 = acc_status acc2"
  proof (intro allI impI)
    fix k1 r1 k2 r2 accs1 accs2 acc1 acc2
    assume "accounts (heap s r1) = Some accs1" "accounts (heap s r2) = Some accs2"
      "acc1 \<in> set accs1" "acc2 \<in> set accs2" "acc_id acc1 = acc_id acc2"
    from views_agree [OF u this(1) this(3) this(2) this(4) this(5)]
    show "acc_status acc1 = acc_status acc2" by simp
  qed
next
  let ?s' = "snd (simulateDisableAccount s a now)"
  assume "\<exists>k r. (k, r) \<in> set (simulatedIdentitiesStore s) \<and> a \<in> set (accountIdsOf s r)"
  then have "scanForAccount (heap s) a (simulatedIdentitiesStore s) \<noteq> None"
    by (simp add: scanForAccount_None_ids)
  then obtain k r i where scan: "scanForAccount (heap s) a (simulatedIdentitiesStore s) = Some (k, r, i)"
    by (cases "scanForAccount (heap s) a (simulatedIdentitiesStore s)") auto
  from scanForAccount_Some [OF scan] obtain accs where
    kr: "(k, r) \<in> set (simulatedIdentitiesStore s)" and accs: "accounts (heap s r) = Some accs"
    and fi: "findIndex (\<lambda>acc. acc_id acc = a) accs = Some i" by blast
  from findIndex_Some [OF fi] have i: "i < length accs" "acc_id (accs ! i) = a" by simp_all
  note eq = disableAccount_found [OF scan accs, of now]
  from reachable_invariants [OF assms] have inv: "refs_allocated s" "task_keys_issued s"
    by simp_all
  from inv(1) kr have ne: "r \<noteq> nextRef s"
    unfolding refs_allocated_def by blast
  let ?accs' = "accs[i := (accs ! i)\<lparr> acc_status := disabled \<rparr>]"
  have h: "accounts (heap ?s' r) = Some ?accs'"
    using ne by (simp add: eq)
  have store: "simulatedIdentitiesStore ?s' = simulatedIdentitiesStore s" by simp
  have target: "?accs' ! i \<in> set ?accs'" "acc_id (?accs' ! i) = a"
    "acc_status (?accs' ! i) = disabled"
    using i by (simp_all add: set_update_memI)
  have "reachable ?s'" using assms by (rule after_disableAccount)
  from reachable_invariants [OF this] have u': "account_ids_unique ?s'" by simp
  show "fst (simulateDisableAccount s a now) =
      (202, Activity (disableAccountTaskId now) ''ACCOUNT_ACTIVITY'' QUEUED
         (''Disable account '' @ a))"
    by (simp add: eq)
  show "\<exists>k r. (k, r) \<in> set (simulatedIdentitiesStore ?s') \<and> a \<in> set (accountIdsOf ?s' r)"
    using kr h target(1,2) unfolding store mem_accountIdsOf by blast
  show "\<forall>k r accs acc.
          (k, r) \<in> set (simulatedIdentitiesStore ?s') \<longrightarrow>
          accounts (heap ?s' r) = Some accs \<longrightarrow>
          acc \<in> set accs \<longrightarrow> acc_id acc = a \<longrightarrow> acc_status acc = disabled"
  proof (intro allI impI)
    fix k' r' accs'' acc
    assume "accounts (heap ?s' r') = Some accs''" "acc \<in> set accs''" "acc_id acc = a"
    from views_agree [OF u' this(1,2) h target(1)] this(3) target(2)
    have "acc = ?accs' ! i" by simp
    with target(3) show "acc_status acc = disabled" by simp
  qed
  show "taskDetailsOf ?s' (disableAccountTaskId now) = Some (nextRef s)"
    by (simp add: eq taskDetailsOf_def update_conv')
  show "status (heap ?s' (nextRef s)) = Some QUEUED"
    by (simp add: eq empty_obj_def)
  show "accountId (heap ?s' (nextRef s)) = Some a"
    by (simp add: eq empty_obj_def)
qed


lemma created_state_reachable: "reachable created_state"
  unfolding created_state_def by (rule after_createAccount [OF module_loaded])

theorem disableAccount_effect_witness:
  "simulateDisableAccount initial_state ''no-such-account'' 9 =
     ((404, Message ''Account no-such-account not found for disabling (simulated).''),
      initial_state)
   \<and> (''simulated-identityId-2'', 16) \<in> set (simulatedIdentitiesStore created_state)
   \<and> accountIdsOf created_state 16 = [''simulated-accountId-3'']
   \<and> fst (simulateDisableAccount created_state ''simulated-accountId-3'' 9) =
       (202, Activity ''disable-account-task-9'' ''ACCOUNT_ACTIVITY'' QUEUED
          ''Disable account simulated-accountId-3'')
   \<and> taskDetailsOf (snd (simulateDisableAccount created_state ''simulated-accountId-3'' 9))
         ''disable-account-task-9'' = Some 17
   \<and> status (heap (snd (simulateDisableAccount created_state ''simulated-accountId-3'' 9)) 17)
       = Some QUEUED"
proof -
  have none: "\<forall>k r. (k, r) \<in> set (simulatedIdentitiesStore initial_state) \<longrightarrow>
      ''no-such-account'' \<notin> set (accountIdsOf initial_state r)"
    by (auto simp: initial_state_def Let_def accountIdsOf_def empty_obj_def
        string_of_nat.simps digit_char_def)
  have entry: "(''simulated-identityId-2'', 16) \<in> set (simulatedIdentitiesStore created_state)"
    by (simp add: created_state_stores)
  have ids: "accountIdsOf created_state 16 = [''simulated-accountId-3'']"
    by (simp add: accountIdsOf_def created_state_identity empty_obj_def)
  have some: "\<exists>k r. (k, r) \<in> set (simulatedIdentitiesStore created_state) \<and>
      ''simulated-accountId-3'' \<in> set (accountIdsOf created_state r)"
    using entry ids by (intro exI [of _ "''simulated-identityId-2''"] exI [of _ 16]) simp
  have k: "disableAccountTaskId 9 = ''disable-account-task-9''" "nextRef created_state = 17"
    by (simp_all add: key_defs string_of_nat.simps digit_char_def created_state_stores)
  from disableAccount_effect [OF module_loaded, of "''no-such-account''" 9] none
  have first: "simulateDisableAccount initial_state ''no-such-account'' 9 =
     ((404, Message ''Account no-such-account not found for disabling (simulated).''),
      initial_state)"
    by simp
  from disableAccount_effect [OF created_state_reachable, of "''simulated-accountId-3''" 9] some
  have second: "fst (simulateDisableAccount created_state ''simulated-accountId-3'' 9) =
       (202, Activity ''disable-account-task-9'' ''ACCOUNT_ACTIVITY'' QUEUED
          ''Disable account simulated-accountId-3'')
   \<and> taskDetailsOf (snd (simulateDisableAccount created_state ''simulated-accountId-3'' 9))
         ''disable-account-task-9'' = Some 17
   \<and> status (heap (snd (simulateDisableAccount created_state ''simulated-accountId-3'' 9)) 17)
       = Some QUEUED"
    by (simp add: k)
  from first entry ids second show ?thesis by simp
qed

subsection \<open>Searching identities\<close>

lemma fold_last_match:
  "fold (\<lambda>(key, r) found. if P r then Some r else found) xs acc =
     (case find (\<lambda>(key, r). P r) (rev xs) of Some (key, r) \<Rightarrow> Some r | None \<Rightarrow> acc)"
proof (induction xs rule: rev_induct)
  case Nil
  show ?case by simp
next
  case (snoc x xs)
  obtain key r where x: "x = (key, r)" by (cases x)
  show ?case by (simp add: snoc x)
qed

lemma searchByEmail_last:
  assumes "e \<noteq> []"
  shows "simulateSearchIdentity s \<lparr> qp_email = Some e, qp_accountId = qa, qp_identityId = qi \<rparr> =
     (case find (\<lambda>(key, r). email (heap s r) = Some e) (rev (simulatedIdentitiesStore s)) of
        None \<Rightarrow> (404, [])
      | Some (key, r) \<Rightarrow> (200, [identityView (readObject s r)]))"
  using assms
  by (simp add: simulateSearchIdentity_def truthy_def fold_last_match Let_def
      split: option.split prod.split)

lemma update_fresh:
  "k \<notin> fst ` set al \<Longrightarrow> AList.update k v al = al @ [(k, v)]"
  by (induction al) auto

lemma identityView_advanceStatus [simp]:
  "identityView (advanceStatus ob) = identityView ob"
  by (simp add: identityView_def advanceStatus_def)

lemma getTaskStatus_heap_fields:
  "email (heap (snd (simulateGetTaskStatus s taskId)) r) = email (heap s r)"
  "sourceAccountId (heap (snd (simulateGetTaskStatus s taskId)) r) = sourceAccountId (heap s r)"
  "identityView (heap (snd (simulateGetTaskStatus s taskId)) r) = identityView (heap s r)"
  by (simp_all add: getTaskStatus_state split: option.split)

lemma twice_created_state_reachable: "reachable twice_created_state"
  unfolding twice_created_state_def by (rule after_createAccount [OF created_state_reachable])

lemma twice_created_state_eval:
  "simulatedIdentitiesStore twice_created_state =
     [(''simulated-identityId-0'', 0), (''simulated-identityId-1'', 1),
      (''simulated-accountId-3'', 16), (''simulated-identityId-2'', 16),
      (''simulated-accountId-4'', 18), (''simulated-identityId-3'', 18)]"
  "heap twice_created_state 16 = heap created_state 16"
  "heap twice_created_state (Suc 0) = heap created_state (Suc 0)"
  "heap twice_created_state 0 = heap created_state 0"
  "heap twice_created_state 18 = newIdentity ''simulated-identityId-3'' ''simulated-accountId-4''
     \<lparr> ad_sourceId = ''s2'', ad_attributes = [(''mail'', ''a@x.com'')] \<rparr>"
  by (simp_all add: twice_created_state_def createAccount_snd created_state_stores key_defs
      string_of_nat.simps digit_char_def)

text \<open>
  C10, as the code has it. In every reachable state no object lists an account id twice
  and no two objects list the same account id, so a search by account id has at most one
  candidate. Emails are not checked by \<open>simulateCreateAccount\<close>; the search by email
  answers with the last entry of the store, in insertion order, whose object has that
  email.
\<close>

theorem account_ids_unique_email_last_match:
  assumes "reachable s"
  shows "(\<forall>r. distinct (accountIdsOf s r))
     \<and> (\<forall>r1 r2. r1 \<noteq> r2 \<longrightarrow> set (accountIdsOf s r1) \<inter> set (accountIdsOf s r2) = {})
     \<and> (\<forall>e qa qi. e \<noteq> [] \<longrightarrow>
          simulateSearchIdentity s \<lparr> qp_email = Some e, qp_accountId = qa, qp_identityId = qi \<rparr> =
            (case find (\<lambda>(key, r). email (heap s r) = Some e) (rev (simulatedIdentitiesStore s)) of
               None \<Rightarrow> (404, [])
             | Some (key, r) \<Rightarrow> (200, [identityView (heap s r)])))"
proof -
  have found: "identityView (readObject s r) = identityView (heap s r)"
    if "find (\<lambda>(key, r). email (heap s r) = Some e) (rev (simulatedIdentitiesStore s))
          = Some (key, r)" for e key r
  proof -
    from that have "email (heap s r) = Some e"
      by (auto simp: find_Some_iff)
    with reachable_have_state [OF assms] have "lifecycleState (heap s r) \<noteq> None"
      unfolding identities_have_state_def by auto
    then show ?thesis by (simp add: readObject_own)
  qed
  from reachable_invariants [OF assms] have "account_ids_unique s" by simp
  then show ?thesis
    unfolding account_ids_unique_def
    by (simp add: searchByEmail_last found split: option.split)
qed

theorem account_ids_unique_email_last_match_witness:
  "distinct (accountIdsOf twice_created_state 16)
   \<and> set (accountIdsOf twice_created_state 16) \<inter> set (accountIdsOf twice_created_state 18) = {}
   \<and> simulateSearchIdentity twice_created_state
        \<lparr> qp_email = Some ''a@x.com'', qp_accountId = None, qp_identityId = None \<rparr> =
       (200, [identityView (heap twice_created_state 18)])"
proof -
  have ne: "(16::nat) \<noteq> 18" "''a@x.com'' \<noteq> []" by simp_all
  from account_ids_unique_email_last_match [OF twice_created_state_reachable]
  show ?thesis
    using ne
    by (simp add: twice_created_state_eval created_state_identity created_state_preloaded
        newIdentity_def Let_def empty_obj_def del: One_nat_def)
qed

text \<open>
  The claim C10 as the specification states it fails in the state reached by two account
  creations with the same mail attribute: two identities, with different ids, have the
  same email.
\<close>

theorem two_identities_share_an_email:
  "reachable twice_created_state
   \<and> map_of (simulatedIdentitiesStore twice_created_state) ''simulated-identityId-2'' = Some 16
   \<and> map_of (simulatedIdentitiesStore twice_created_state) ''simulated-identityId-3'' = Some 18
   \<and> obj_id (heap twice_created_state 16) = Some ''simulated-identityId-2''
   \<and> obj_id (heap twice_created_state 18) = Some ''simulated-identityId-3''
   \<and> email (heap twice_created_state 16) = Some ''a@x.com''
   \<and> email (heap twice_created_state 18) = Some ''a@x.com''"
  by (simp add: twice_created_state_reachable twice_created_state_eval created_state_identity
      newIdentity_def Let_def empty_obj_def)

lemma fresh_identity_key:
  assumes "identity_keys_issued s"
  shows "simulatedIdentityId (identityCounter s) \<notin> fst ` set (simulatedIdentitiesStore s)"
proof
  assume "simulatedIdentityId (identityCounter s) \<in> fst ` set (simulatedIdentitiesStore s)"
  with assms have "(\<exists>n<identityCounter s. simulatedIdentityId (identityCounter s) = simulatedIdentityId n)
      \<or> (\<exists>n<accountCounter s. simulatedIdentityId (identityCounter s) = simulatedAccountId n)
      \<or> (\<exists>t. simulatedIdentityId (identityCounter s) = setLcsTaskId t)"
    unfolding identity_keys_issued_def by blast
  then show False by auto
qed

lemma find_append_none:
  "\<forall>x \<in> set xs. \<not> P x \<Longrightarrow> find P (xs @ ys) = find P ys"
  by (induction xs) auto

lemma update_split:
  assumes "k \<noteq> i"
  shows "\<exists>pre' post'. AList.update k v (pre @ (i, r) # post) = pre' @ (i, r) # post'
           \<and> set post' \<subseteq> insert (k, v) (set post)"
proof (induction pre)
  case Nil
  from assms have "AList.update k v ([] @ (i, r) # post) = [] @ (i, r) # AList.update k v post"
    by simp
  with set_update_subset [of k v post] show ?case by blast
next
  case (Cons x pre)
  obtain x1 x2 where x: "x = (x1, x2)" by (cases x)
  show ?case
  proof (cases "x1 = k")
    case True
    then have "AList.update k v ((x # pre) @ (i, r) # post) = ((k, v) # pre) @ (i, r) # post"
      by (simp add: x)
    then show ?thesis by blast
  next
    case False
    from Cons.IH obtain pre' post' where
      "AList.update k v (pre @ (i, r) # post) = pre' @ (i, r) # post'"
      "set post' \<subseteq> insert (k, v) (set post)"
      by blast
    with False have "AList.update k v ((x # pre) @ (i, r) # post) = (x # pre') @ (i, r) # post'"
      by (simp add: x)
    with \<open>set post' \<subseteq> insert (k, v) (set post)\<close> show ?thesis by blast
  qed
qed

lemma updates_split:
  assumes "\<forall>(k, v) \<in> set news. k \<noteq> i"
  shows "\<exists>pre' post'. fold (\<lambda>(k, v). AList.update k v) news (pre @ (i, r) # post)
             = pre' @ (i, r) # post'
           \<and> set post' \<subseteq> set news \<union> set post"
  using assms
proof (induction news arbitrary: pre post)
  case Nil
  show ?case by auto
next
  case (Cons kv news)
  obtain k v where kv: "kv = (k, v)" by (cases kv)
  from Cons.prems have "k \<noteq> i" by (simp add: kv)
  from update_split [OF this, of v pre r post] obtain pre1 post1 where
    1: "AList.update k v (pre @ (i, r) # post) = pre1 @ (i, r) # post1"
    "set post1 \<subseteq> insert (k, v) (set post)"
    by blast
  from Cons.prems have "\<forall>(k, v) \<in> set news. k \<noteq> i" by simp
  from Cons.IH [OF this, of pre1 post1] obtain pre' post' where
    2: "fold (\<lambda>(k, v). AList.update k v) news (pre1 @ (i, r) # post1) = pre' @ (i, r) # post'"
    "set post' \<subseteq> set news \<union> set post1"
    by blast
  have "fold (\<lambda>(k, v). AList.update k v) (kv # news) (pre @ (i, r) # post)
      = pre' @ (i, r) # post'"
    by (simp add: kv 1 2)
  moreover from 1(2) 2(2) have "set post' \<subseteq> set (kv # news) \<union> set post"
    by (auto simp: kv)
  ultimately show ?case by blast
qed

lemma map_of_updates:
  assumes "x \<notin> fst ` set news"
  shows "map_of (fold (\<lambda>(k, v). AList.update k v) news al) x = map_of al x"
  using assms
proof (induction news arbitrary: al)
  case Nil
  show ?case by simp
next
  case (Cons kv news)
  obtain k v where kv: "kv = (k, v)" by (cases kv)
  from Cons.prems have "x \<noteq> k" "x \<notin> fst ` set news" by (auto simp: kv)
  with Cons.IH [of "AList.update k v al"] show ?case
    by (simp add: kv update_conv')
qed

text \<open>
  One step keeps an identity indexed when it only adds entries to the identities store,
  under other keys and for objects with another email, and leaves the id and the email of
  the objects that exist.
\<close>

lemma indexed_step:
  assumes ix: "indexed s mail n m r" and ra: "refs_allocated s"
    and ac: "accountCounter s \<le> accountCounter s'"
    and ic: "identityCounter s \<le> identityCounter s'"
    and hp: "\<And>r'. r' < nextRef s \<Longrightarrow>
               email (heap s' r') = email (heap s r') \<and> obj_id (heap s' r') = obj_id (heap s r')"
    and st: "simulatedIdentitiesStore s' =
               fold (\<lambda>(k, v). AList.update k v) news (simulatedIdentitiesStore s)"
    and nk: "\<And>k v. (k, v) \<in> set news \<Longrightarrow>
               k \<noteq> simulatedAccountId n \<and> k \<noteq> simulatedIdentityId m
               \<and> email (heap s' v) \<noteq> Some mail"
  shows "indexed s' mail n m r"
proof -
  let ?a = "simulatedAccountId n" and ?i = "simulatedIdentityId m"
  from ix obtain pre post where
    n: "n < accountCounter s" and m: "m < identityCounter s"
    and ma: "map_of (simulatedIdentitiesStore s) ?a = Some r"
    and mi: "map_of (simulatedIdentitiesStore s) ?i = Some r"
    and oi: "obj_id (heap s r) = Some ?i"
    and em: "email (heap s r) = Some mail"
    and sp: "simulatedIdentitiesStore s = pre @ (?i, r) # post"
    and po: "\<And>k' r'. (k', r') \<in> set post \<Longrightarrow> email (heap s r') \<noteq> Some mail"
    unfolding indexed_def by blast
  from mi have "(?i, r) \<in> set (simulatedIdentitiesStore s)" by (rule map_of_SomeD)
  with ra have r: "r < nextRef s" unfolding refs_allocated_def by blast
  have na: "?a \<notin> fst ` set news" and ni: "?i \<notin> fst ` set news"
    using nk by force+
  have ki: "\<forall>(k, v) \<in> set news. k \<noteq> ?i" using nk by blast
  from updates_split [OF ki, of pre r post] obtain pre' post' where
    sp': "simulatedIdentitiesStore s' = pre' @ (?i, r) # post'"
    and sub: "set post' \<subseteq> set news \<union> set post"
    unfolding st sp by blast
  have po': "email (heap s' r') \<noteq> Some mail" if "(k', r') \<in> set post'" for k' r'
  proof -
    from that sub have "(k', r') \<in> set news \<or> (k', r') \<in> set post" by blast
    then show ?thesis
    proof
      assume "(k', r') \<in> set news"
      with nk show ?thesis by blast
    next
      assume p: "(k', r') \<in> set post"
      then have "(k', r') \<in> set (simulatedIdentitiesStore s)" by (simp add: sp)
      with ra have "r' < nextRef s" unfolding refs_allocated_def by blast
      with hp po [OF p] show ?thesis by simp
    qed
  qed
  from n ac have "n < accountCounter s'" by simp
  moreover from m ic have "m < identityCounter s'" by simp
  moreover have "map_of (simulatedIdentitiesStore s') ?a = Some r"
    by (simp add: st map_of_updates [OF na] ma)
  moreover have "map_of (simulatedIdentitiesStore s') ?i = Some r"
    by (simp add: st map_of_updates [OF ni] mi)
  moreover from hp [OF r] oi em have "obj_id (heap s' r) = Some ?i" "email (heap s' r) = Some mail"
    by simp_all
  ultimately show ?thesis
    unfolding indexed_def using sp' po' by blast
qed

lemma getTaskStatus_obj_id:
  "obj_id (heap (snd (simulateGetTaskStatus s taskId)) r) = obj_id (heap s r)"
  by (simp add: getTaskStatus_state advanceStatus_def split: option.split)

lemma indexed_createAccount:
  assumes ix: "indexed s mail n m r" and ra: "refs_allocated s"
    and other: "map_of (ad_attributes d) ''mail'' \<noteq> Some mail"
  shows "indexed (snd (simulateCreateAccount s d now)) mail n m r"
proof (rule indexed_step [OF ix ra, where news =
    "[(simulatedAccountId (accountCounter s), Suc (nextRef s)),
      (simulatedIdentityId (identityCounter s), Suc (nextRef s))]"])
  let ?s' = "snd (simulateCreateAccount s d now)"
  show "accountCounter s \<le> accountCounter ?s'" "identityCounter s \<le> identityCounter ?s'"
    by (simp_all add: createAccount_snd)
  show "email (heap ?s' r') = email (heap s r') \<and> obj_id (heap ?s' r') = obj_id (heap s r')"
    if "r' < nextRef s" for r'
    using that by (simp add: createAccount_snd)
  show "simulatedIdentitiesStore ?s' =
      fold (\<lambda>(k, v). AList.update k v)
        [(simulatedAccountId (accountCounter s), Suc (nextRef s)),
         (simulatedIdentityId (identityCounter s), Suc (nextRef s))]
        (simulatedIdentitiesStore s)"
    by (simp add: createAccount_snd)
  from ix have nm: "n < accountCounter s" "m < identityCounter s"
    by (simp_all add: indexed_def)
  show "k \<noteq> simulatedAccountId n \<and> k \<noteq> simulatedIdentityId m \<and> email (heap ?s' v) \<noteq> Some mail"
    if "(k, v) \<in> set [(simulatedAccountId (accountCounter s), Suc (nextRef s)),
      (simulatedIdentityId (identityCounter s), Suc (nextRef s))]" for k v
    using that nm other by (auto simp: createAccount_snd newIdentity_def Let_def)
qed

lemma indexed_getTaskStatus:
  assumes ix: "indexed s mail n m r" and ra: "refs_allocated s"
  shows "indexed (snd (simulateGetTaskStatus s taskId)) mail n m r"
proof (rule indexed_step [OF ix ra, where news = "[]"])
  let ?s' = "snd (simulateGetTaskStatus s taskId)"
  show "accountCounter s \<le> accountCounter ?s'" "identityCounter s \<le> identityCounter ?s'"
    by (simp_all add: getTaskStatus_state split: option.split)
  show "email (heap ?s' r') = email (heap s r') \<and> obj_id (heap ?s' r') = obj_id (heap s r')"
    for r'
    by (simp add: getTaskStatus_heap_fields getTaskStatus_obj_id)
  show "simulatedIdentitiesStore ?s' =
      fold (\<lambda>(k, v). AList.update k v) [] (simulatedIdentitiesStore s)"
    by (simp add: getTaskStatus_state split: option.split)
  show "k \<noteq> simulatedAccountId n \<and> k \<noteq> simulatedIdentityId m \<and> email (heap ?s' v) \<noteq> Some mail"
    if "(k, v) \<in> set []" for k v
    using that by simp
qed

lemma indexed_disableAccount:
  assumes ix: "indexed s mail n m r" and ra: "refs_allocated s"
  shows "indexed (snd (simulateDisableAccount s a now)) mail n m r"
proof (cases "scanForAccount (heap s) a (simulatedIdentitiesStore s)")
  case None
  with ix show ?thesis by (simp add: disableAccount_not_found)
next
  case (Some found)
  obtain k r0 i where found: "found = (k, r0, i)" by (cases found)
  from scanForAccount_Some [OF Some [unfolded found]]
  obtain accs where accs: "accounts (heap s r0) = Some accs" by blast
  note eq = disableAccount_found [OF Some [unfolded found] accs]
  show ?thesis
  proof (rule indexed_step [OF ix ra, where news = "[]"])
    let ?s' = "snd (simulateDisableAccount s a now)"
    show "accountCounter s \<le> accountCounter ?s'" "identityCounter s \<le> identityCounter ?s'"
      by (simp_all add: eq)
    show "email (heap ?s' r') = email (heap s r') \<and> obj_id (heap ?s' r') = obj_id (heap s r')"
      if "r' < nextRef s" for r'
      using that by (simp add: eq)
    show "simulatedIdentitiesStore ?s' =
        fold (\<lambda>(k, v). AList.update k v) [] (simulatedIdentitiesStore s)"
      by (simp add: eq)
    show "k \<noteq> simulatedAccountId n \<and> k \<noteq> simulatedIdentityId m \<and> email (heap ?s' v) \<noteq> Some mail"
      if "(k, v) \<in> set []" for k v
      using that by simp
  qed
qed

lemma indexed_setLifecycleState:
  assumes ix: "indexed s mail n m r" and ra: "refs_allocated s"
  shows "indexed (snd (simulateSetLifecycleState s iid st now)) mail n m r"
proof (cases "findIdentityById s iid")
  case None
  with ix show ?thesis by (simp add: setLifecycleState_not_found)
next
  case (Some r0)
  note eq = setLifecycleState_found [OF Some]
  show ?thesis
  proof (rule indexed_step [OF ix ra, where news = "[(setLcsTaskId now, nextRef s)]"])
    let ?s' = "snd (simulateSetLifecycleState s iid st now)"
    show "accountCounter s \<le> accountCounter ?s'" "identityCounter s \<le> identityCounter ?s'"
      by (simp_all add: eq)
    show "email (heap ?s' r') = email (heap s r') \<and> obj_id (heap ?s' r') = obj_id (heap s r')"
      if "r' < nextRef s" for r'
      using that by (simp add: eq)
    show "simulatedIdentitiesStore ?s' =
        fold (\<lambda>(k, v). AList.update k v) [(setLcsTaskId now, nextRef s)]
          (simulatedIdentitiesStore s)"
      by (simp add: eq)
    show "k \<noteq> simulatedAccountId n \<and> k \<noteq> simulatedIdentityId m \<and> email (heap ?s' v) \<noteq> Some mail"
      if "(k, v) \<in> set [(setLcsTaskId now, nextRef s)]" for k v
      using that by (simp add: eq empty_obj_def)
  qed
qed

text \<open>The new identity is indexed in the state \<open>simulateCreateAccount\<close> returns.\<close>

lemma createAccount_indexed:
  assumes r: "reachable s" and mail: "map_of (ad_attributes d) ''mail'' = Some mail"
  shows "indexed (snd (simulateCreateAccount s d now)) mail
           (accountCounter s) (identityCounter s) (Suc (nextRef s))"
proof -
  let ?s1 = "snd (simulateCreateAccount s d now)"
  let ?acc = "simulatedAccountId (accountCounter s)"
  let ?idn = "simulatedIdentityId (identityCounter s)"
  let ?i = "Suc (nextRef s)"
  from reachable_invariants [OF r] have ki: "identity_keys_issued s" by simp
  have fresh: "?idn \<notin> fst ` set (AList.update ?acc ?i (simulatedIdentitiesStore s))"
    using fresh_identity_key [OF ki] by (simp add: keys_update)
  have store: "simulatedIdentitiesStore ?s1 =
      AList.update ?acc ?i (simulatedIdentitiesStore s) @ (?idn, ?i) # []"
    by (simp add: createAccount_snd update_fresh [OF fresh])
  have "map_of (simulatedIdentitiesStore ?s1) ?acc = Some ?i"
    "map_of (simulatedIdentitiesStore ?s1) ?idn = Some ?i"
    by (simp_all add: createAccount_snd update_conv')
  moreover have "obj_id (heap ?s1 ?i) = Some ?idn" "email (heap ?s1 ?i) = Some mail"
    by (simp_all add: createAccount_snd newIdentity_def Let_def mail)
  moreover have "accountCounter s < accountCounter ?s1" "identityCounter s < identityCounter ?s1"
    by (simp_all add: createAccount_snd)
  ultimately show ?thesis
    unfolding indexed_def using store by (intro conjI exI [of _ "[]"] exI) simp_all
qed

lemma later_reachable:
  assumes "later mail s0 s" and "reachable s0"
  shows "reachable s"
  using assms by (induction rule: later.induct) (auto intro: reachable.intros)

lemma later_indexed:
  assumes "later mail s0 s" and "reachable s0" and "indexed s0 mail n m r"
  shows "indexed s mail n m r"
  using assms
proof (induction rule: later.induct)
  case later_now
  then show ?case by simp
next
  case (later_createAccount s accountData' now)
  from later_reachable [OF later_createAccount.hyps(1) later_createAccount.prems(1)]
  have "refs_allocated s" using reachable_invariants by blast
  with later_createAccount show ?case by (simp add: indexed_createAccount)
next
  case (later_getTaskStatus s taskId)
  from later_reachable [OF later_getTaskStatus.hyps(1) later_getTaskStatus.prems(1)]
  have "refs_allocated s" using reachable_invariants by blast
  with later_getTaskStatus show ?case by (simp add: indexed_getTaskStatus)
next
  case (later_disableAccount s accountId' now)
  from later_reachable [OF later_disableAccount.hyps(1) later_disableAccount.prems(1)]
  have "refs_allocated s" using reachable_invariants by blast
  with later_disableAccount show ?case by (simp add: indexed_disableAccount)
next
  case (later_setLifecycleState s identityId' newLifecycleState now)
  from later_reachable [OF later_setLifecycleState.hyps(1) later_setLifecycleState.prems(1)]
  have "refs_allocated s" using reachable_invariants by blast
  with later_setLifecycleState show ?case by (simp add: indexed_setLifecycleState)
qed

lemma readObject_fields [simp]:
  "obj_id (readObject s r) = obj_id (heap s r)" "email (readObject s r) = email (heap s r)"
  "name (readObject s r) = name (heap s r)" "accounts (readObject s r) = accounts (heap s r)"
  by (simp_all add: readObject_def split: option.split)

text \<open>The three searches for an indexed identity.\<close>

lemma indexed_searches:
  assumes ix: "indexed s mail n m r" and ne: "mail \<noteq> []"
  shows "iv_id (identityView (readObject s r)) = Some (simulatedIdentityId m)"
    and "simulateSearchIdentity s
           \<lparr> qp_email = Some mail, qp_accountId = None, qp_identityId = None \<rparr> =
         (200, [identityView (readObject s r)])"
    and "simulateSearchIdentity s
           \<lparr> qp_email = None, qp_accountId = Some (simulatedAccountId n), qp_identityId = None \<rparr> =
         (200, [identityView (readObject s r)])"
    and "simulateSearchIdentity s
           \<lparr> qp_email = None, qp_accountId = None, qp_identityId = Some (simulatedIdentityId m) \<rparr> =
         (200, [identityView (readObject s r)])"
proof -
  let ?a = "simulatedAccountId n" and ?i = "simulatedIdentityId m"
  from ix obtain pre post where
    ma: "map_of (simulatedIdentitiesStore s) ?a = Some r"
    and mi: "map_of (simulatedIdentitiesStore s) ?i = Some r"
    and oi: "obj_id (heap s r) = Some ?i"
    and em: "email (heap s r) = Some mail"
    and sp: "simulatedIdentitiesStore s = pre @ (?i, r) # post"
    and po: "\<And>k' r'. (k', r') \<in> set post \<Longrightarrow> email (heap s r') \<noteq> Some mail"
    unfolding indexed_def by blast
  show "iv_id (identityView (readObject s r)) = Some ?i"
    by (simp add: identityView_def oi)
  have fa: "findIdentityById s ?a = Some r" by (simp add: findIdentityById_def ma)
  have fi: "findIdentityById s ?i = Some r" by (simp add: findIdentityById_def mi)
  have "\<forall>x \<in> set (rev post). \<not> (case x of (key, r') \<Rightarrow> email (heap s r') = Some mail)"
    using po by auto
  from find_append_none [OF this]
  have "find (\<lambda>(key, r'). email (heap s r') = Some mail) (rev (simulatedIdentitiesStore s))
      = Some (?i, r)"
    by (simp add: sp em)
  then show "simulateSearchIdentity s
           \<lparr> qp_email = Some mail, qp_accountId = None, qp_identityId = None \<rparr> =
         (200, [identityView (readObject s r)])"
    by (simp add: searchByEmail_last [OF ne])
  show "simulateSearchIdentity s
           \<lparr> qp_email = None, qp_accountId = Some ?a, qp_identityId = None \<rparr> =
         (200, [identityView (readObject s r)])"
    by (simp add: simulateSearchIdentity_def truthy_def js_str_def fa)
  show "simulateSearchIdentity s
           \<lparr> qp_email = None, qp_accountId = None, qp_identityId = Some ?i \<rparr> =
         (200, [identityView (readObject s r)])"
    by (simp add: simulateSearchIdentity_def truthy_def js_str_def fi)
qed

text \<open>
  C9, as the code has it. An account is created, in a reachable state, with a non-empty
  \<open>mail\<close> attribute. Polling its task gives the \<open>COMPLETED\<close> snapshot, whose result holds
  the new account id and the new identity id. In every state reached afterwards by the
  operations, as long as none of them creates an account with the same \<open>mail\<close> attribute,
  the search by the mail, the search by the new account id and the search by the new
  identity id all answer \<open>200\<close> with the same one-element list, a view of the new
  identity, whose id is the identity id of the task result.
\<close>

theorem created_identity_searches_agree:
  assumes "reachable s0" and "map_of (ad_attributes d) ''mail'' = Some mail" and "mail \<noteq> []"
    and "later mail (snd (simulateCreateAccount s0 d now)) s"
  shows "let s1 = snd (simulateCreateAccount s0 d now);
             taskId = accountCreationTaskId now;
             newAccountId = simulatedAccountId (accountCounter s0);
             newIdentityId = simulatedIdentityId (identityCounter s0)
         in pollTaskStatus s1 taskId 5 =
              (Inr \<lparr> ts_id = taskId, ts_type = ''GENERIC_TASK'', ts_name = None,
                  ts_status = Some COMPLETED,
                  ts_result = Some (AccountResult newAccountId (Some newIdentityId)
                                      (ad_sourceId d)) \<rparr>,
               queries s1 taskId 2)
          \<and> (\<exists>v. iv_id v = Some newIdentityId
                \<and> simulateSearchIdentity s
                    \<lparr> qp_email = Some mail, qp_accountId = None, qp_identityId = None \<rparr>
                    = (200, [v])
                \<and> simulateSearchIdentity s
                    \<lparr> qp_email = None, qp_accountId = Some newAccountId, qp_identityId = None \<rparr>
                    = (200, [v])
                \<and> simulateSearchIdentity s
                    \<lparr> qp_email = None, qp_accountId = None, qp_identityId = Some newIdentityId \<rparr>
                    = (200, [v]))"
proof -
  let ?s1 = "snd (simulateCreateAccount s0 d now)"
  have two: "(2::nat) \<le> 5" by simp
  from assms(1) have r1: "reachable ?s1" by (rule after_createAccount)
  note ix = later_indexed [OF assms(4) r1 createAccount_indexed [OF assms(1,2)]]
  note found = indexed_searches [OF ix assms(3)]
  show ?thesis
    unfolding Let_def
    using found by (intro conjI createAccount_then_poll [OF two] exI) simp_all
qed

theorem created_identity_searches_agree_witness:
  "pollTaskStatus created_state ''account-creation-task-5'' 5 =
     (Inr \<lparr> ts_id = ''account-creation-task-5'', ts_type = ''GENERIC_TASK'', ts_name = None,
         ts_status = Some COMPLETED,
         ts_result = Some (AccountResult ''simulated-accountId-3''
                             (Some ''simulated-identityId-2'') ''s1'') \<rparr>,
      queries created_state ''account-creation-task-5'' 2)
   \<and> map iv_id (snd (simulateSearchIdentity
        (snd (simulateSetLifecycleState disabled_state ''simulated-identityId-2'' ''terminated'' 11))
        \<lparr> qp_email = Some ''a@x.com'', qp_accountId = None, qp_identityId = None \<rparr>))
       = [Some ''simulated-identityId-2'']
   \<and> map iv_id (snd (simulateSearchIdentity
        (snd (simulateSetLifecycleState disabled_state ''simulated-identityId-2'' ''terminated'' 11))
        \<lparr> qp_email = None, qp_accountId = Some ''simulated-accountId-3'', qp_identityId = None \<rparr>))
       = [Some ''simulated-identityId-2'']
   \<and> map iv_id (snd (simulateSearchIdentity
        (snd (simulateSetLifecycleState disabled_state ''simulated-identityId-2'' ''terminated'' 11))
        \<lparr> qp_email = None, qp_accountId = None, qp_identityId = Some ''simulated-identityId-2'' \<rparr>))
       = [Some ''simulated-identityId-2'']"
proof -
  let ?d = "\<lparr> ad_sourceId = ''s1'',
         ad_attributes = [(''mail'', ''a@x.com''), (''displayName'', ''A B'')] \<rparr>"
  let ?s = "snd (simulateSetLifecycleState disabled_state ''simulated-identityId-2''
         ''terminated'' 11)"
  have m: "map_of (ad_attributes ?d) ''mail'' = Some ''a@x.com''" "''a@x.com'' \<noteq> []"
    by simp_all
  have k: "accountCreationTaskId 5 = ''account-creation-task-5''"
    "simulatedAccountId (accountCounter initial_state) = ''simulated-accountId-3''"
    "simulatedIdentityId (identityCounter initial_state) = ''simulated-identityId-2''"
    by (simp_all add: key_defs initial_state_def Let_def string_of_nat.simps digit_char_def)
  have l: "later ''a@x.com'' (snd (simulateCreateAccount initial_state ?d 5)) ?s"
    unfolding disabled_state_def created_state_def
    by (intro later_setLifecycleState later_disableAccount later_now)
  from created_identity_searches_agree [OF module_loaded m l]
  show ?thesis
    unfolding Let_def k created_state_def [symmetric]
    by auto
qed

text \<open>
  The claim C9 as the specification states it fails for the first of two identities
  created with the same mail attribute: the search by its email answers with the second
  identity, the searches by its account id and by its identity id with the first.
\<close>

theorem search_by_email_finds_later_identity:
  "email (heap twice_created_state 16) = Some ''a@x.com''
   \<and> obj_id (heap twice_created_state 16) = Some ''simulated-identityId-2''
   \<and> map iv_id (snd (simulateSearchIdentity twice_created_state
        \<lparr> qp_email = Some ''a@x.com'', qp_accountId = None, qp_identityId = None \<rparr>))
       = [Some ''simulated-identityId-3'']
   \<and> map iv_id (snd (simulateSearchIdentity twice_created_state
        \<lparr> qp_email = None, qp_accountId = Some ''simulated-accountId-3'', qp_identityId = None \<rparr>))
       = [Some ''simulated-identityId-2'']
   \<and> map iv_id (snd (simulateSearchIdentity twice_created_state
        \<lparr> qp_email = None, qp_accountId = None, qp_identityId = Some ''simulated-identityId-2'' \<rparr>))
       = [Some ''simulated-identityId-2'']"
  by (simp add: simulateSearchIdentity_def truthy_def js_str_def findIdentityById_def
      twice_created_state_eval created_state_identity created_state_preloaded
      identityView_def newIdentity_def Let_def empty_obj_def del: One_nat_def)

subsection \<open>The status query of a disable task\<close>

lemma account_id_nonempty:
  assumes "reachable s" and "a \<in> set (accountIdsOf s r)"
  shows "a \<noteq> []"
proof -
  from reachable_invariants [OF assms(1)] have "account_ids_issued s" by simp
  with assms(2) have "a \<in> {''sim-acc-mgr-0'', ''sim-acc-jd1-1'', ''sim-acc-jd2-2''} \<or>
      (\<exists>n < accountCounter s. a = simulatedAccountId n)"
    unfolding account_ids_issued_def by blast
  then show ?thesis by (auto simp: key_defs)
qed

lemma disableAccount_task:
  assumes r: "reachable s"
    and t: "activity_id (snd (fst (simulateDisableAccount s a now))) = Some taskId"
  shows "taskDetailsOf (snd (simulateDisableAccount s a now)) taskId = Some (nextRef s)"
    and "truthy (accountId (heap (snd (simulateDisableAccount s a now)) (nextRef s)))"
    and "accountData (heap (snd (simulateDisableAccount s a now)) (nextRef s)) = None"
proof -
  let ?s' = "snd (simulateDisableAccount s a now)"
  obtain k r0 i where scan: "scanForAccount (heap s) a (simulatedIdentitiesStore s) = Some (k, r0, i)"
  proof (cases "scanForAccount (heap s) a (simulatedIdentitiesStore s)")
    case None
    with t show ?thesis by (simp add: disableAccount_not_found)
  next
    case (Some found)
    with that show ?thesis by (cases found) auto
  qed
  from scanForAccount_Some [OF scan]
  obtain accs where accs: "accounts (heap s r0) = Some accs"
    and ix: "findIndex (\<lambda>acc. acc_id acc = a) accs = Some i"
    by blast
  note eq = disableAccount_found [OF scan accs]
  from ix findIndex_Some_iff [of "\<lambda>acc. acc_id acc = a" accs]
  have "a \<in> set (accountIdsOf s r0)"
    by (auto simp: accountIdsOf_def accs)
  from account_id_nonempty [OF r this] have ne: "a \<noteq> []" .
  from t have tid: "taskId = disableAccountTaskId now" by (simp add: eq)
  show "taskDetailsOf ?s' taskId = Some (nextRef s)"
    by (simp add: taskDetailsOf_def eq tid update_conv')
  show "truthy (accountId (heap ?s' (nextRef s)))"
    using ne by (simp add: eq truthy_def)
  show "accountData (heap ?s' (nextRef s)) = None"
    by (simp add: eq empty_obj_def)
qed

lemma task_without_accountData_throws:
  assumes "taskDetailsOf s taskId = Some t" and "truthy (accountId (heap s t))"
    and "accountData (heap s t) = None"
  shows "fst (simulateGetTaskStatus (queries s taskId k) taskId) =
     Inl (TypeError ''Cannot read properties of undefined (reading 'sourceId')'')"
  using assms
proof (induction k arbitrary: s)
  case 0
  then show ?case by (simp add: getTaskStatus_found [OF "0.prems"(1)] Let_def)
next
  case (Suc k)
  let ?s1 = "snd (simulateGetTaskStatus s taskId)"
  have "taskDetailsOf ?s1 taskId = Some t" using Suc.prems(1) by simp
  moreover have "truthy (accountId (heap ?s1 t))" "accountData (heap ?s1 t) = None"
    using Suc.prems by (simp_all add: getTaskStatus_state)
  ultimately show ?case
    unfolding queries_Suc by (rule Suc.IH)
qed

text \<open>
  C2. When \<open>simulateDisableAccount\<close>, called in a reachable state, answers with a task id,
  that id is in the ledger and no status query of it returns a snapshot: the task object
  has an \<^verbatim>\<open>accountId\<close> and no \<^verbatim>\<open>accountData\<close>, so building the account-oriented result
  throws, at the first query and at every one after it.
\<close>

theorem getTaskStatus_disable_task_throws:
  assumes "reachable s"
    and "activity_id (snd (fst (simulateDisableAccount s a now))) = Some taskId"
  shows "taskDetailsOf (snd (simulateDisableAccount s a now)) taskId \<noteq> None
     \<and> (\<forall>k. fst (simulateGetTaskStatus
                  (queries (snd (simulateDisableAccount s a now)) taskId k) taskId) =
              Inl (TypeError ''Cannot read properties of undefined (reading 'sourceId')''))"
  using disableAccount_task [OF assms]
  by (simp add: task_without_accountData_throws)

theorem getTaskStatus_disable_task_throws_witness:
  "activity_id (snd (fst (simulateDisableAccount created_state ''simulated-accountId-3'' 9))) =
     Some ''disable-account-task-9''
   \<and> taskDetailsOf disabled_state ''disable-account-task-9'' \<noteq> None
   \<and> fst (simulateGetTaskStatus disabled_state ''disable-account-task-9'') =
        Inl (TypeError ''Cannot read properties of undefined (reading 'sourceId')'')
   \<and> fst (simulateGetTaskStatus
            (snd (simulateGetTaskStatus disabled_state ''disable-account-task-9''))
            ''disable-account-task-9'') =
        Inl (TypeError ''Cannot read properties of undefined (reading 'sourceId')'')"
proof -
  have a: "activity_id (snd (fst (simulateDisableAccount created_state
      ''simulated-accountId-3'' 9))) = Some ''disable-account-task-9''"
    by (simp add: disabled_state_stores)
  have q: "queries disabled_state ''disable-account-task-9'' (Suc 0) =
      snd (simulateGetTaskStatus disabled_state ''disable-account-task-9'')"
    by (simp add: queries_def)
  from getTaskStatus_disable_task_throws [OF created_state_reachable a]
  have "taskDetailsOf disabled_state ''disable-account-task-9'' \<noteq> None"
    and all: "\<And>k. fst (simulateGetTaskStatus
                  (queries disabled_state ''disable-account-task-9'' k)
                  ''disable-account-task-9'') =
              Inl (TypeError ''Cannot read properties of undefined (reading 'sourceId')'')"
    unfolding disabled_state_def [symmetric] by simp_all
  with a all [of 0] all [of "Suc 0"] show ?thesis
    unfolding q by simp
qed

subsection \<open>The offboarding route\<close>

lemma undefined_is_no_task:
  assumes "reachable s"
  shows "taskDetailsOf s ''undefined'' = None"
proof -
  from reachable_invariants [OF assms]
  have ki: "identity_keys_issued s" and kt: "task_keys_issued s" by simp_all
  have "''undefined'' \<notin> fst ` set (simulatedAccountsStore s)"
  proof
    assume "''undefined'' \<in> fst ` set (simulatedAccountsStore s)"
    with kt have "(\<exists>t. ''undefined'' = accountCreationTaskId t) \<or>
        (\<exists>t. ''undefined'' = disableAccountTaskId t)"
      unfolding task_keys_issued_def by blast
    then show False by (simp add: key_defs)
  qed
  moreover have "''undefined'' \<notin> fst ` set (simulatedIdentitiesStore s)"
  proof
    assume "''undefined'' \<in> fst ` set (simulatedIdentitiesStore s)"
    with ki have "(\<exists>n<identityCounter s. ''undefined'' = simulatedIdentityId n)
      \<or> (\<exists>n<accountCounter s. ''undefined'' = simulatedAccountId n)
      \<or> (\<exists>t. ''undefined'' = setLcsTaskId t)"
      unfolding identity_keys_issued_def by blast
    then show False by (simp add: key_defs)
  qed
  ultimately show ?thesis
    by (simp add: taskDetailsOf_def lookup_defs map_of_eq_None_iff [THEN iffD2])
qed

text \<open>
  C3. Offboarding, in a reachable state, an identity \<open>findIdentityById\<close> does not find:
  the lifecycle operation answers \<open>404\<close> and changes nothing, the route polls the task id
  \<^verbatim>\<open>undefined\<close> five times and fails with the poller's error, a \<open>500\<close>; the state is the
  one it started from.
\<close>

theorem offboard_unknown_identity:
  assumes "reachable s" and "own_key iid" and "iid \<noteq> []"
    and "findIdentityById s iid = None"
  shows "simulateSetLifecycleState s iid st now1 =
       ((404, Message (''Identity '' @ iid @
            '' not found for lifecycle state change (simulated).'')), s)
     \<and> offboard s e
         \<lparr> contractorSailPointIdentityId = Some iid, justification = j,
           revokeAllAccess = revoke \<rparr> now0 now1 =
       (Inl (ApiError 500 ''Task undefined did not complete after 5 attempts.''), s)"
proof -
  have nf: "simulateSetLifecycleState s iid st' now1 =
       ((404, Message (''Identity '' @ iid @
            '' not found for lifecycle state change (simulated).'')), s)" for st'
    using assms(4) by (rule setLifecycleState_not_found)
  have q: "simulateGetTaskStatus s ''undefined'' =
      (Inr (404, TaskMessage ''Task undefined not found (simulated).''), s)"
    by (simp add: simulateGetTaskStatus_def undefined_is_no_task [OF assms(1)])
  have poll: "pollTaskStatus s ''undefined'' 5 =
      (Inl (ApiError 500 ''Task undefined did not complete after 5 attempts.''), s)"
    by (simp add: pollTaskStatus_def pollLoop.simps q string_of_nat.simps digit_char_def)
  show ?thesis
    using assms(3)
    by (simp add: offboard_def Let_def truthy_def js_str_def nf poll)
qed

theorem offboard_unknown_identity_witness:
  "findIdentityById initial_state ''no-such-identity'' = None
   \<and> simulateSetLifecycleState initial_state ''no-such-identity'' ''terminated'' 2 =
       ((404, Message ''Identity no-such-identity not found for lifecycle state change (simulated).''),
        initial_state)
   \<and> offboard initial_state
        \<lparr> SAILPOINT_CONTRACTOR_SOURCE_ID = None, SAILPOINT_TERMINATED_LCS = None \<rparr>
        \<lparr> contractorSailPointIdentityId = Some ''no-such-identity'', justification = None,
          revokeAllAccess = True \<rparr> 1 2 =
     (Inl (ApiError 500 ''Task undefined did not complete after 5 attempts.''), initial_state)"
proof -
  have ok: "own_key ''no-such-identity''" "''no-such-identity'' \<noteq> []"
    by (simp_all add: own_key_def Object_prototype_def prototypeMembers_def)
  note f = initial_state_lookups(1)
  from offboard_unknown_identity [OF module_loaded ok f, of "''terminated''" 2
      "\<lparr> SAILPOINT_CONTRACTOR_SOURCE_ID = None, SAILPOINT_TERMINATED_LCS = None \<rparr>"
      None True 1] f
  show ?thesis by simp
qed

subsection \<open>Inherited members as task ids\<close>

text \<open>
  A status query whose task id is the name of an inherited member finds the member: in
  the fresh module the query of \<^verbatim>\<open>constructor\<close> answers \<open>200\<close> with a snapshot that has no
  status and the name of the function, and changes nothing.
\<close>

lemma getTaskStatus_inherited_member:
  "simulateGetTaskStatus initial_state ''constructor'' =
     (Inr (200, TaskData \<lparr> ts_id = ''constructor'', ts_type = ''GENERIC_TASK'',
        ts_name = Some ''Object'', ts_status = None,
        ts_result = Some (GenericResult ''Object completed successfully.'') \<rparr>),
      initial_state)"
proof -
  have t: "taskDetailsOf initial_state ''constructor'' = Some 2"
    by (simp add: taskDetailsOf_def lookup_defs initial_state_lookups)
  have h: "heap initial_state 2 = empty_obj\<lparr> name := Some ''Object'' \<rparr>"
    by (simp add: initial_state_def Let_def builtins_def prototypeMembers_def memberObject_def)
  have a: "advanceStatus (heap initial_state 2) = heap initial_state 2"
    by (simp add: h advanceStatus_def empty_obj_def)
  have s: "initial_state\<lparr> heap := (heap initial_state)(2 := heap initial_state 2) \<rparr> = initial_state"
    by simp
  have "simulateGetTaskStatus initial_state ''constructor'' =
     (Inr (200, TaskData \<lparr> ts_id = ''constructor'',
        ts_type = js_str (or_else (obj_type (heap initial_state 2)) (Some ''GENERIC_TASK'')),
        ts_name = name (heap initial_state 2), ts_status = status (heap initial_state 2),
        ts_result = Some (GenericResult
          (js_str (name (heap initial_state 2)) @ '' completed successfully.'')) \<rparr>),
      initial_state)"
    unfolding getTaskStatus_found [OF t] Let_def a s
    by (simp add: h empty_obj_def truthy_def)
  then show ?thesis
    by (simp add: h empty_obj_def js_str_def or_else_def truthy_def)
qed

text \<open>
  A lifecycle change whose argument is \<^verbatim>\<open>__proto__\<close> writes to \<^verbatim>\<open>Object.prototype\<close>. From
  then on the stores inherit the property \<^verbatim>\<open>lifecycleState\<close>, a string: a second call
  with that name as its argument finds the string, which has no name, and is answered
  \<open>202\<close>.
\<close>

lemma lifecycleState_of_prototype:
  "findIdentityById initial_state ''__proto__'' = Some 12
   \<and> lifecycleState (heap (snd (simulateSetLifecycleState initial_state
         ''__proto__'' ''terminated'' 2)) prototypeRef) = Some ''terminated''
   \<and> findIdentityById (snd (simulateSetLifecycleState initial_state
         ''__proto__'' ''terminated'' 2)) ''lifecycleState'' = Some 14
   \<and> fst (simulateSetLifecycleState
         (snd (simulateSetLifecycleState initial_state ''__proto__'' ''terminated'' 2))
         ''lifecycleState'' ''active'' 3) =
       (202, Activity ''set-lcs-task-3'' ''IDENTITY_LIFECYCLE_UPDATE'' QUEUED
          ''Lifecycle state change for undefined to active'')"
proof -
  let ?s1 = "snd (simulateSetLifecycleState initial_state ''__proto__'' ''terminated'' 2)"
  have n: "setLcsTaskId 2 = ''set-lcs-task-2''" "setLcsTaskId 3 = ''set-lcs-task-3''"
    by (simp_all add: key_defs string_of_nat.simps digit_char_def)
  have p: "findIdentityById initial_state ''__proto__'' = Some 12"
    by (simp add: findIdentityById_def lookup_defs initial_state_lookups)
  note eq1 = setLifecycleState_found [OF p, of "''terminated''" 2]
  have l: "lifecycleState (heap ?s1 prototypeRef) = Some ''terminated''"
    by (simp add: eq1 prototypeRef_def primitiveRef_def initial_state_lookups)
  have st1: "simulatedIdentitiesStore ?s1 =
      [(''simulated-identityId-0'', 0), (''simulated-identityId-1'', 1), (''set-lcs-task-2'', 15)]"
    by (simp add: eq1 initial_state_lookups n)
  have own: "map_of (simulatedIdentitiesStore ?s1) ''lifecycleState'' = None"
    by (simp add: st1)
  have inh: "inherited ?s1 ''lifecycleState'' = Some 14"
    unfolding inherited_def l by (simp add: prototypeMembers_def truthy_def primitiveRef_def)
  have f: "findIdentityById ?s1 ''lifecycleState'' = Some 14"
    by (simp add: findIdentityById_def getProperty_def own inh)
  have h0: "heap ?s1 14 = heap initial_state 14"
    by (simp add: eq1 initial_state_lookups)
  have h: "name (heap ?s1 14) = None"
    unfolding h0
    by (simp add: initial_state_def Let_def builtins_def prototypeMembers_def empty_obj_def)
  note eq2 = setLifecycleState_found [OF f, of "''active''" 3]
  show ?thesis
    by (simp add: p l f eq2 h n js_str_def)
qed

end
